theory Spec2Isabelle
  imports Complex_Main "HOL-Library.Sublist"
begin

section \<open>Python values shared by the event builders\<close>

text \<open>
  Exceptions of the source are values.  \<open>ValueError\<close> is what the constructors raise for
  conflicting flags, \<open>TypeError\<close> what they raise for an argument of the wrong type (and what
  \<open>delete\<close> raises for an inline message); the others come from the built-in operations
  the filters call.  \<open>PatternError\<close> stands for \<open>re.error\<close>, \<open>RPCError\<close> for a failure of
  a request sent through the client, \<open>StructError\<close> for \<open>struct.error\<close>.
\<close>

datatype error = ValueError | TypeError | IndexError | AttributeError | PatternError | RPCError
  | StructError

text \<open>
  Python \<open>str\<close> and \<open>bytes\<close> are both \<open>string\<close>: a \<open>str\<close> is read as its code points
  (below 256), a \<open>bytes\<close> as its bytes.  An \<open>Optional[bool]\<close> is a \<open>bool option\<close>; it is
  truthy exactly when it is \<open>True\<close>.
\<close>

definition truthy :: "bool option \<Rightarrow> bool" where
  "truthy x = (x = Some True)"

section \<open>Spam guard\<close>

text \<open>
  \<open>_spam_cache = cachebox.TTLCache(500, 0.6)\<close>.  The cache is the state of the module; the
  clock reading \<open>now\<close> (seconds) is an input of every operation.  The entries are kept in
  insertion order, oldest first, each with the instant at which it expires.  An entry is
  live while \<open>now\<close> is before that instant.  \<open>get\<close> returns the value of a live entry or
  the default and changes nothing; \<open>__setitem__\<close> drops what has expired and the old entry
  of the key, evicts the oldest entries while the cache is full, and appends the new entry
  stamped \<open>now + ttl\<close>.
\<close>

record 'k TTLCache =
  maxsize :: nat
  ttl :: real
  entries :: "('k \<times> int \<times> real) list"

definition live :: "real \<Rightarrow> ('k \<times> int \<times> real) \<Rightarrow> bool" where
  "live now e = (now < snd (snd e))"

definition cache_get :: "'k TTLCache \<Rightarrow> real \<Rightarrow> 'k \<Rightarrow> int \<Rightarrow> int" where
  "cache_get c now k d =
     (case find (\<lambda>e. fst e = k \<and> live now e) (entries c) of
        Some e \<Rightarrow> fst (snd e)
      | None \<Rightarrow> d)"

definition cache_setitem :: "'k TTLCache \<Rightarrow> real \<Rightarrow> 'k \<Rightarrow> int \<Rightarrow> 'k TTLCache" where
  "cache_setitem c now k v =
     (let kept = filter (\<lambda>e. fst e \<noteq> k \<and> live now e) (entries c);
          room = (if maxsize c \<le> length kept
                  then drop (Suc (length kept) - maxsize c) kept else kept)
      in c\<lparr>entries := room @ [(k, v, now + ttl c)]\<rparr>)"

definition spam_cache_init :: "int option TTLCache" where
  "spam_cache_init = \<lparr>maxsize = 500, ttl = 6 / 10, entries = []\<rparr>"

text \<open>
  \<open>is_spam\<close>: the ids are \<open>Optional[int]\<close> (\<open>sender_id\<close> of a message may be \<open>None\<close>).
  The stored value is 1, the default 0, so the lookup is truthy exactly for a live entry.
\<close>

definition is_spam :: "real \<Rightarrow> int option \<Rightarrow> int option TTLCache \<Rightarrow> bool \<times> int option TTLCache" where
  "is_spam now ident c =
     (if cache_get c now ident 0 \<noteq> 0 then (True, c)
      else (False, cache_setitem c now ident 1))"

text \<open>The instant at which the live entry of a key expires, if there is one.\<close>

definition expiry_of :: "'k TTLCache \<Rightarrow> real \<Rightarrow> 'k \<Rightarrow> real option" where
  "expiry_of c now k = map_option (\<lambda>e. snd (snd e)) (find (\<lambda>e. fst e = k \<and> live now e) (entries c))"

section \<open>Event builders\<close>

subsection \<open>EventBuilder\<close>

record 'e EventBuilder =
  resolved :: bool
  func :: "('e \<Rightarrow> bool) option"

text \<open>
  \<open>EventBuilder.filter\<close>.  A bare \<open>return\<close> is \<open>None\<close>; the event is accepted when the
  result is \<open>Some True\<close>.
\<close>

definition EventBuilder_filter :: "('e, 'z) EventBuilder_scheme \<Rightarrow> 'e \<Rightarrow> bool option" where
  "EventBuilder_filter self event =
     (if \<not> resolved self then None
      else case func self of
             Some f \<Rightarrow> Some (f event)
           | None \<Rightarrow> Some True)"

subsection \<open>Messages and the NewMessage event\<close>

datatype EntityKind = MessageEntityBotCommand | MessageEntityMention | MessageEntityUrl
  | MessageEntityBold | MessageEntityCode

record MessageEntity =
  kind :: EntityKind
  offset :: int
  e_length :: int

record Message =
  out :: bool
  message :: string
  entities :: "MessageEntity list option"
  sender_id :: "int option"
  m_is_private :: bool
  m_is_group :: bool
  m_is_channel :: bool

text \<open>
  \<open>NewMessage.Event\<close> (also the event of \<open>Command\<close>): the message, the chat kind the event
  reports itself, and \<open>_client.me.username\<close>.
\<close>

record NewMessage_Event =
  e_message :: Message
  is_private :: bool
  is_group :: bool
  is_channel :: bool
  me_username :: "string option"

subsection \<open>NewMessage\<close>

text \<open>
  A compiled \<open>re.Pattern\<close> is its \<open>match\<close> (whether it matches at the start of the
  subject); \<open>re.compile\<close> is a parameter of the constructor, \<open>None\<close> where it raises
  \<open>re.error\<close>.
\<close>

datatype Pattern = Pattern (pmatch: "string \<Rightarrow> bool")

datatype pattern_arg = PatternStr string | PatternCompiled Pattern | PatternNone | PatternOther

record NewMessage = "NewMessage_Event EventBuilder" +
  pattern :: "Pattern option"
  incoming :: "bool option"
  outgoing :: "bool option"
  private_flag :: bool
  public_flag :: bool

definition NewMessage_init ::
  "(string \<Rightarrow> Pattern option) \<Rightarrow> pattern_arg \<Rightarrow> bool option \<Rightarrow> bool option \<Rightarrow>
   (NewMessage_Event \<Rightarrow> bool) option \<Rightarrow> bool \<Rightarrow> bool \<Rightarrow> error + NewMessage" where
  "NewMessage_init re_compile pattern_a outgoing_a incoming_a func_a private_a public_a =
     (if private_a \<and> public_a then Inl ValueError
      else
        case (if truthy incoming_a \<and> truthy outgoing_a then Inr (None, None)
              else if incoming_a \<noteq> None \<and> outgoing_a = None
                then Inr (incoming_a, Some (\<not> truthy incoming_a))
              else if outgoing_a \<noteq> None \<and> incoming_a = None
                then Inr (Some (\<not> truthy outgoing_a), outgoing_a)
              else if list_all (\<lambda>x. x \<noteq> None \<and> \<not> truthy x) [incoming_a, outgoing_a]
                then Inl ValueError
              else Inr (incoming_a, outgoing_a)) of
          Inl e \<Rightarrow> Inl e
        | Inr (inc, outg) \<Rightarrow>
            (case (case pattern_a of
                     PatternStr s \<Rightarrow>
                       (case re_compile s of None \<Rightarrow> Inl PatternError | Some p \<Rightarrow> Inr (Some p))
                   | PatternCompiled p \<Rightarrow> Inr (Some p)
                   | PatternNone \<Rightarrow> Inr None
                   | PatternOther \<Rightarrow> Inl TypeError) of
               Inl e \<Rightarrow> Inl e
             | Inr pat \<Rightarrow>
                 Inr \<lparr>resolved = False, func = func_a, pattern = pat,
                      incoming = inc, outgoing = outg,
                      private_flag = private_a, public_flag = public_a\<rparr>))"

text \<open>\<open>EventBuilder.resolve\<close>: sets the flag, once.\<close>

definition resolve :: "('e, 'z) EventBuilder_scheme \<Rightarrow> ('e, 'z) EventBuilder_scheme" where
  "resolve self = (if resolved self then self else self\<lparr>resolved := True\<rparr>)"

definition NewMessage_filter ::
  "NewMessage \<Rightarrow> NewMessage_Event \<Rightarrow> real \<Rightarrow> int option TTLCache \<Rightarrow>
   bool option \<times> int option TTLCache" where
  "NewMessage_filter self event now cache =
     (if private_flag self \<and> \<not> is_private event then (None, cache)
      else if public_flag self \<and> \<not> (is_group event \<or> is_channel event) then (None, cache)
      else if truthy (incoming self) \<and> out (e_message event) then (None, cache)
      else if truthy (outgoing self) \<and> \<not> out (e_message event) then (None, cache)
      else if (case pattern self of
                 Some p \<Rightarrow> \<not> pmatch p (message (e_message event))
               | None \<Rightarrow> False) then (None, cache)
      else case is_spam now (sender_id (e_message event)) cache of
             (True, cache') \<Rightarrow> (None, cache')
           | (False, cache') \<Rightarrow> (EventBuilder_filter self event, cache'))"

subsection \<open>Built-in string operations\<close>

text \<open>
  \<open>s[start:stop]\<close>: an index below zero counts from the end, and both are clamped to the
  string.
\<close>

definition clamp_index :: "nat \<Rightarrow> int \<Rightarrow> nat" where
  "clamp_index n i = (if i < 0 then nat (max (i + int n) 0) else min (nat i) n)"

definition py_slice :: "'a list \<Rightarrow> int \<Rightarrow> int \<Rightarrow> 'a list" where
  "py_slice xs start stop =
     (let a = clamp_index (length xs) start; b = clamp_index (length xs) stop
      in take (b - a) (drop a xs))"

text \<open>
  \<open>s.split(sep, maxsplit)\<close> for a non-empty \<open>sep\<close>: \<open>acc\<close> is the segment being read.
  \<open>maxsplit = None\<close> stands for the call without a limit.
\<close>

fun split_loop :: "'a list \<Rightarrow> nat option \<Rightarrow> 'a list \<Rightarrow> 'a list \<Rightarrow> 'a list list" where
  "split_loop sep (Some 0) acc s = [acc @ s]"
| "split_loop sep m acc [] = [acc]"
| "split_loop sep m acc (c # cs) =
     (if prefix sep (c # cs)
      then acc # split_loop sep (map_option (\<lambda>n. n - 1) m) [] (drop (length sep - 1) cs)
      else split_loop sep m (acc @ [c]) cs)"

text \<open>\<open>bytes.split(None, maxsplit)\<close>: runs of ASCII whitespace separate the words.\<close>

definition is_space :: "char \<Rightarrow> bool" where
  "is_space c = (c \<in> set [CHR '' '', CHR 0x09, CHR 0x0A, CHR 0x0B, CHR 0x0C, CHR 0x0D])"

function split_ws :: "nat \<Rightarrow> string \<Rightarrow> string list" where
  "split_ws n s =
     (let s' = dropWhile is_space s
      in if s' = [] then []
         else if n = 0 then [s']
         else takeWhile (\<lambda>c. \<not> is_space c) s'
              # split_ws (n - 1) (dropWhile (\<lambda>c. \<not> is_space c) s'))"
  by pat_completeness auto
termination
proof (relation "measure (\<lambda>(n, s). length s)")
  show "wf (measure (\<lambda>(n, s). length s))" by simp
next
  fix n :: nat and s s' :: string
  assume s': "s' = dropWhile is_space s" and ne: "s' \<noteq> []"
  have "\<not> is_space (hd s')"
    using s' ne hd_dropWhile by metis
  then have "dropWhile (\<lambda>c. \<not> is_space c) s' = dropWhile (\<lambda>c. \<not> is_space c) (tl s')"
    using ne by (cases s') simp_all
  moreover have "length (dropWhile (\<lambda>c. \<not> is_space c) (tl s')) \<le> length (tl s')"
    by (rule length_dropWhile_le)
  ultimately have "length (dropWhile (\<lambda>c. \<not> is_space c) s') \<le> length (tl s')"
    by metis
  also have "\<dots> < length s'" using ne by simp
  also have "\<dots> \<le> length s" by (simp add: s' length_dropWhile_le)
  finally show "((n - 1, dropWhile (\<lambda>c. \<not> is_space c) s'), (n, s)) \<in> measure (\<lambda>(n, s). length s)"
    by simp
qed

text \<open>
  \<open>data.split(sep, maxsplit)\<close> on bytes: \<open>sep = None\<close> splits at whitespace, an empty
  \<open>sep\<close> raises.
\<close>

definition bytes_split :: "string \<Rightarrow> string option \<Rightarrow> nat \<Rightarrow> error + string list" where
  "bytes_split s sep maxsplit =
     (case sep of
        None \<Rightarrow> Inr (split_ws maxsplit s)
      | Some sp \<Rightarrow> if sp = [] then Inl ValueError else Inr (split_loop sp (Some maxsplit) [] s))"

text \<open>
  \<open>data.count(sub)\<close>: the occurrences that do not overlap, from the left; the empty
  \<open>sub\<close> occurs \<open>len + 1\<close> times; \<open>None\<close> is not bytes.
\<close>

fun count_loop :: "'a list \<Rightarrow> 'a list \<Rightarrow> nat" where
  "count_loop sub [] = (if sub = [] then 1 else 0)"
| "count_loop sub (c # cs) =
     (if sub = [] then 1 + count_loop sub cs
      else if prefix sub (c # cs) then 1 + count_loop sub (drop (length sub - 1) cs)
      else count_loop sub cs)"

definition bytes_count :: "string \<Rightarrow> string option \<Rightarrow> error + int" where
  "bytes_count s sub = (case sub of None \<Rightarrow> Inl TypeError | Some sb \<Rightarrow> Inr (int (count_loop sb s)))"

text \<open>\<open>xs[0]\<close>.\<close>

definition first_item :: "'a list \<Rightarrow> error + 'a" where
  "first_item xs = (case xs of [] \<Rightarrow> Inl IndexError | x # _ \<Rightarrow> Inr x)"

text \<open>\<open>s.encode("utf-8")\<close> for code points below 256: one byte below 128, two from there.\<close>

definition utf8_encode :: "string \<Rightarrow> string" where
  "utf8_encode s =
     concat (map (\<lambda>c. let n = (of_char c :: nat)
                      in if n < 128 then [c]
                         else [char_of (192 + n div 64), char_of (128 + n mod 64)]) s)"

subsection \<open>Command\<close>

datatype command_arg = CommandStr string | CommandList "string list" | CommandOther

record Command = NewMessage +
  command :: "string list"

text \<open>
  \<open>Command.__init__\<close>.  \<open>c.replace("/", "", 1)\<close> removes the first \<open>/\<close> of \<open>c\<close>, which is
  \<^const>\<open>remove1\<close>.  The pattern given to \<open>NewMessage.__init__\<close> is \<open>None\<close>, so
  \<open>re.compile\<close> is not called.
\<close>

definition Command_init ::
  "command_arg \<Rightarrow> bool option \<Rightarrow> bool option \<Rightarrow> (NewMessage_Event \<Rightarrow> bool) option \<Rightarrow>
   bool \<Rightarrow> bool \<Rightarrow> error + Command" where
  "Command_init command_a outgoing_a incoming_a func_a private_a public_a =
     (case (case command_a of
              CommandStr c \<Rightarrow> Inr [remove1 CHR ''/'' c]
            | CommandList cs \<Rightarrow> Inr (map (remove1 CHR ''/'') cs)
            | CommandOther \<Rightarrow> Inl TypeError) of
        Inl e \<Rightarrow> Inl e
      | Inr cmds \<Rightarrow>
          (case NewMessage_init (\<lambda>_. None) PatternNone
                  outgoing_a incoming_a func_a private_a public_a of
             Inl e \<Rightarrow> Inl e
           | Inr nm \<Rightarrow>
               Inr \<lparr>resolved = resolved nm, func = func nm, pattern = pattern nm,
                    incoming = incoming nm, outgoing = outgoing nm,
                    private_flag = private_flag nm, public_flag = public_flag nm,
                    command = cmds\<rparr>))"

text \<open>
  \<open>Command.filter\<close>.  \<open>_entity_command\<close> is the text of the first entity without its first
  character, split at every \<open>@\<close>; \<open>pop(0)\<close> takes the command, and what is left starts with
  the username.
\<close>

definition Command_filter ::
  "Command \<Rightarrow> NewMessage_Event \<Rightarrow> real \<Rightarrow> int option TTLCache \<Rightarrow>
   error + bool option \<times> int option TTLCache" where
  "Command_filter self event now cache =
     (let m = e_message event in
      if private_flag self \<and> \<not> m_is_private m then Inr (None, cache)
      else if public_flag self \<and> \<not> (m_is_group m \<or> m_is_channel m) then Inr (None, cache)
      else if truthy (incoming self) \<and> out m then Inr (None, cache)
      else if truthy (outgoing self) \<and> \<not> out m then Inr (None, cache)
      else case entities m of
        None \<Rightarrow> Inr (None, cache)
      | Some [] \<Rightarrow> Inr (None, cache)
      | Some (ent # _) \<Rightarrow>
          if kind ent \<noteq> MessageEntityBotCommand \<or> offset ent \<noteq> 0 then Inr (None, cache)
          else
            (case split_loop ''@'' None []
                    (py_slice (message m) (offset ent + 1) (offset ent + e_length ent)) of
               [] \<Rightarrow> Inl IndexError
             | c # entity_command \<Rightarrow>
                 if c \<notin> set (command self) then Inr (None, cache)
                 else if (case entity_command of
                            [] \<Rightarrow> False
                          | u # _ \<Rightarrow> Some u \<noteq> me_username event) then Inr (None, cache)
                 else (case is_spam now (sender_id m) cache of
                         (True, cache') \<Rightarrow> Inr (None, cache')
                       | (False, cache') \<Rightarrow> Inr (EventBuilder_filter self event, cache'))))"

subsection \<open>CallbackQuery\<close>

datatype InlineMessageID =
    InputBotInlineMessageID (im_dc_id: int) (im_id: int) (im_access_hash: int)
  | InputBotInlineMessageID64 (im_dc_id: int) (im_owner_id: int) (im_id: int) (im_access_hash: int)

text \<open>
  The two updates a callback event is built from.  The message of
  \<open>UpdateBotCallbackQuery\<close> is an \<open>int\<close>, that of \<open>UpdateInlineBotCallbackQuery\<close> an
  inline message identifier; \<open>data\<close> is optional in both.
\<close>

datatype CallbackUpdate =
    UpdateBotCallbackQuery (query_id: int) (user_id: int) (peer: int) (bot_msg_id: int)
      (chat_instance: int) (data: "string option")
  | UpdateInlineBotCallbackQuery (query_id: int) (user_id: int) (inline_msg_id: InlineMessageID)
      (chat_instance: int) (data: "string option")

datatype MsgId = PlainMsgId int | InlineMsgId InlineMessageID

definition msg_id :: "CallbackUpdate \<Rightarrow> MsgId" where
  "msg_id q = (case q of
     UpdateBotCallbackQuery _ _ _ m _ _ \<Rightarrow> PlainMsgId m
   | UpdateInlineBotCallbackQuery _ _ i _ _ \<Rightarrow> InlineMsgId i)"

record CallbackQuery_Event =
  query :: CallbackUpdate
  answered :: bool
  input_chat :: "int option"

datatype text_arg = Str string | Bytes string | NoArg

datatype split_arg = SplitTuple text_arg int | Split text_arg

record CallbackQuery = "CallbackQuery_Event EventBuilder" +
  cb_data :: "string option"
  split_char :: "string option"
  split_char_count :: "int option"

definition to_bytes :: "text_arg \<Rightarrow> string option" where
  "to_bytes a = (case a of Str s \<Rightarrow> Some (utf8_encode s) | Bytes b \<Rightarrow> Some b | NoArg \<Rightarrow> None)"

definition CallbackQuery_init ::
  "text_arg \<Rightarrow> split_arg \<Rightarrow> (CallbackQuery_Event \<Rightarrow> bool) option \<Rightarrow> CallbackQuery" where
  "CallbackQuery_init data_a split_a func_a =
     (case split_a of
        SplitTuple ch n \<Rightarrow>
          \<lparr>resolved = False, func = func_a, cb_data = to_bytes data_a,
           split_char = to_bytes ch, split_char_count = Some n\<rparr>
      | Split ch \<Rightarrow>
          \<lparr>resolved = False, func = func_a, cb_data = to_bytes data_a,
           split_char = to_bytes ch, split_char_count = None\<rparr>)"

text \<open>Truthiness of optional bytes and of an optional count.\<close>

definition bytes_truthy :: "string option \<Rightarrow> bool" where
  "bytes_truthy b = (b \<noteq> None \<and> b \<noteq> Some [])"

definition count_truthy :: "int option \<Rightarrow> bool" where
  "count_truthy n = (n \<noteq> None \<and> n \<noteq> Some 0)"

text \<open>
  The data checks of \<open>CallbackQuery.filter\<close>, which either end the filter with a bare
  \<open>return\<close> or go on to the spam guard.  A method called on a payload that is \<open>None\<close>
  raises \<open>AttributeError\<close>.
\<close>

datatype flow = Returns | Continues

definition data_check :: "CallbackQuery \<Rightarrow> string option \<Rightarrow> error + flow" where
  "data_check self payload =
     (if bytes_truthy (cb_data self) then
        if \<not> bytes_truthy (split_char self) \<and> cb_data self \<noteq> payload then Inr Returns
        else
          case (if count_truthy (split_char_count self) then
                  (case payload of
                     None \<Rightarrow> Inl AttributeError
                   | Some p \<Rightarrow>
                       (case bytes_count p (split_char self) of
                          Inl e \<Rightarrow> Inl e
                        | Inr k \<Rightarrow>
                            Inr (if Some k \<noteq> split_char_count self then Returns else Continues)))
                else Inr Continues) of
            Inl e \<Rightarrow> Inl e
          | Inr Returns \<Rightarrow> Inr Returns
          | Inr Continues \<Rightarrow>
              (case payload of
                 None \<Rightarrow> Inl AttributeError
               | Some p \<Rightarrow>
                   (case bytes_split p (split_char self) 2 of
                      Inl e \<Rightarrow> Inl e
                    | Inr parts \<Rightarrow>
                        (case first_item parts of
                           Inl e \<Rightarrow> Inl e
                         | Inr seg \<Rightarrow>
                             Inr (if cb_data self \<noteq> Some seg then Returns else Continues))))
      else Inr Continues)"

definition CallbackQuery_filter ::
  "CallbackQuery \<Rightarrow> CallbackQuery_Event \<Rightarrow> real \<Rightarrow> int option TTLCache \<Rightarrow>
   error + bool option \<times> int option TTLCache" where
  "CallbackQuery_filter self event now cache =
     (case data_check self (data (query event)) of
        Inl e \<Rightarrow> Inl e
      | Inr Returns \<Rightarrow> Inr (None, cache)
      | Inr Continues \<Rightarrow>
          (case is_spam now (Some (user_id (query event))) cache of
             (True, cache') \<Rightarrow> Inr (None, cache')
           | (False, cache') \<Rightarrow> Inr (EventBuilder_filter self event, cache')))"

subsection \<open>The client, and the actions of a callback event\<close>

text \<open>
  What an action does to the outside is recorded in the client: \<open>sent\<close> lists the requests
  issued, in order, and \<open>tasks\<close> the coroutines handed to \<open>loop.create_task\<close>, which the
  loop runs later.  The answer of the server to a request (a result or an exception) is the
  parameter \<open>server\<close>.
\<close>

datatype SwitchPM = InlineBotSwitchPM string string | SwitchText string

datatype Request =
    SetBotCallbackAnswerRequest int int bool "string option" "string option"
  | SetInlineBotResultsRequest int "string list" int bool "string option" bool "SwitchPM option"
  | DeleteMessages "int option" "int list"

datatype Task = AnswerTask

type_synonym Response = int

record Client =
  sent :: "Request list"
  tasks :: "Task list"

fun CallbackQuery_answer ::
  "(Request \<Rightarrow> error + Response) \<Rightarrow> string option \<Rightarrow> int \<Rightarrow> string option \<Rightarrow> bool \<Rightarrow>
   CallbackQuery_Event \<times> Client \<Rightarrow> (error + Response option) \<times> CallbackQuery_Event \<times> Client" where
  "CallbackQuery_answer server message_a cache_time url alert (ev, cl) =
     (if answered ev then (Inr None, ev, cl)
      else
        let req = SetBotCallbackAnswerRequest (query_id (query ev)) cache_time alert message_a url
        in (map_sum id Some (server req), ev\<lparr>answered := True\<rparr>, cl\<lparr>sent := sent cl @ [req]\<rparr>))"

definition via_inline :: "CallbackQuery_Event \<Rightarrow> bool" where
  "via_inline ev = (case query ev of
     UpdateInlineBotCallbackQuery _ _ _ _ _ \<Rightarrow> True
   | UpdateBotCallbackQuery _ _ _ _ _ _ \<Rightarrow> False)"

text \<open>
  \<open>delete\<close> (without extra arguments): the task answering the callback is created first;
  then an inline message identifier raises, and any other message is deleted through
  \<open>client.delete_messages\<close>, in the chat \<open>get_input_chat\<close> gives.
\<close>

fun CallbackQuery_delete ::
  "(Request \<Rightarrow> error + Response) \<Rightarrow> CallbackQuery_Event \<times> Client \<Rightarrow>
   (error + Response) \<times> CallbackQuery_Event \<times> Client" where
  "CallbackQuery_delete server (ev, cl) =
     (let cl1 = cl\<lparr>tasks := tasks cl @ [AnswerTask]\<rparr>
      in case msg_id (query ev) of
           InlineMsgId _ \<Rightarrow> (Inl TypeError, ev, cl1)
         | PlainMsgId m \<Rightarrow>
             let req = DeleteMessages (input_chat ev) [m]
             in (server req, ev, cl1\<lparr>sent := sent cl1 @ [req]\<rparr>))"

definition is_delete :: "Request \<Rightarrow> bool" where
  "is_delete r = (case r of DeleteMessages _ _ \<Rightarrow> True | _ \<Rightarrow> False)"

subsection \<open>The inline query event\<close>

record InlineQuery_Event =
  iq_query_id :: int
  iq_text :: string
  iq_answered :: bool

text \<open>
  A result given to \<open>answer\<close> is a value or an awaitable, which ends with a value or an
  exception.  All are awaited; the values are then read in the order of the list, and the
  first exception met is raised.
\<close>

datatype 'a Pending = Ready 'a | Awaitable "error + 'a"

fun results_of :: "'a Pending list \<Rightarrow> error + 'a list" where
  "results_of [] = Inr []"
| "results_of (x # xs) =
     (case (case x of Ready v \<Rightarrow> Inr v | Awaitable r \<Rightarrow> r) of
        Inl e \<Rightarrow> Inl e
      | Inr v \<Rightarrow> (case results_of xs of Inl e \<Rightarrow> Inl e | Inr vs \<Rightarrow> Inr (v # vs)))"

fun InlineQuery_answer ::
  "(Request \<Rightarrow> error + Response) \<Rightarrow> string Pending list option \<Rightarrow> int \<Rightarrow> bool \<Rightarrow>
   string option \<Rightarrow> bool \<Rightarrow> string option \<Rightarrow> string \<Rightarrow>
   InlineQuery_Event \<times> Client \<Rightarrow> (error + Response option) \<times> InlineQuery_Event \<times> Client" where
  "InlineQuery_answer server results cache_time gallery next_offset private_a switch_pm
       switch_pm_param (ev, cl) =
     (if iq_answered ev then (Inr None, ev, cl)
      else
        case (case results of
                None \<Rightarrow> Inr []
              | Some [] \<Rightarrow> Inr []
              | Some (r # rs) \<Rightarrow> results_of (r # rs)) of
          Inl e \<Rightarrow> (Inl e, ev, cl)
        | Inr res \<Rightarrow>
            let sw = (case switch_pm of
                        None \<Rightarrow> None
                      | Some t \<Rightarrow> if t \<noteq> [] then Some (InlineBotSwitchPM t switch_pm_param)
                                  else Some (SwitchText t));
                req = SetInlineBotResultsRequest (iq_query_id ev) res cache_time gallery
                        next_offset private_a sw
            in (map_sum id Some (server req), ev, cl\<lparr>sent := sent cl @ [req]\<rparr>))"

section \<open>File-ID packer\<close>

subsection \<open>The objects pack_bot_file_id looks at\<close>

datatype DocumentAttribute =
    DocumentAttributeAudio (voice: bool)
  | DocumentAttributeVideo (round_message: bool)
  | DocumentAttributeSticker
  | DocumentAttributeAnimated
  | DocumentAttributeFilename string
  | DocumentAttributeImageSize
  | DocumentAttributeHasStickers

datatype PhotoSizeKind = PhotoSize | PhotoCachedSize | PhotoSizeEmpty | PhotoStrippedSize
  | PhotoSizeProgressive | PhotoPathSize

text \<open>
  The fields of the objects are Python integers, without a bound: nothing in the classes
  keeps \<open>dc_id\<close>, \<open>id\<close> or \<open>access_hash\<close> within the width of their TL type.
\<close>

record Document =
  d_id :: int
  d_access_hash :: int
  d_dc_id :: int
  attributes :: "DocumentAttribute list"

record Photo =
  p_id :: int
  p_access_hash :: int
  p_dc_id :: int
  sizes :: "PhotoSizeKind list"

text \<open>
  The argument is any object.  The field of a media container holds any object too,
  \<open>PyNone\<close> when the media has no document or photo.
\<close>

datatype File = IsDocument Document | IsPhoto Photo | DocumentEmpty | PhotoEmpty
  | MessageMediaDocument File | MessageMediaPhoto File | PyNone | OtherObject

subsection \<open>struct.pack, little-endian\<close>

datatype fmt = Fmt_i | Fmt_q | Fmt_b

fun fmt_size :: "fmt \<Rightarrow> nat" where
  "fmt_size Fmt_i = 4"
| "fmt_size Fmt_q = 8"
| "fmt_size Fmt_b = 1"

definition le_bytes :: "nat \<Rightarrow> int \<Rightarrow> string" where
  "le_bytes n x = map (\<lambda>k. char_of (x div 256 ^ k)) [0..<n]"

text \<open>A signed field takes the values of its width; any other raises \<open>struct.error\<close>.\<close>

definition pack_field :: "fmt \<Rightarrow> int \<Rightarrow> error + string" where
  "pack_field f x =
     (if - (2 ^ (8 * fmt_size f - 1)) \<le> x \<and> x < 2 ^ (8 * fmt_size f - 1)
      then Inr (le_bytes (fmt_size f) x) else Inl StructError)"

fun struct_pack :: "fmt list \<Rightarrow> int list \<Rightarrow> error + string" where
  "struct_pack [] [] = Inr []"
| "struct_pack (f # fs) (x # xs) =
     (case pack_field f x of
        Inl e \<Rightarrow> Inl e
      | Inr b \<Rightarrow> (case struct_pack fs xs of Inl e \<Rightarrow> Inl e | Inr bs \<Rightarrow> Inr (b @ bs)))"
| "struct_pack _ _ = Inl StructError"

subsection \<open>The encoders of the wrapped library\<close>

text \<open>
  \<open>telethon.utils._rle_encode\<close>: a run of zero bytes is written, when a byte that is not
  zero ends it, as a zero byte and the length of the run; \<open>bytes([count])\<close> raises for a
  run of 256 or more.
\<close>

fun rle_loop :: "string \<Rightarrow> nat \<Rightarrow> string \<Rightarrow> error + string" where
  "rle_loop new count [] = Inr new"
| "rle_loop new count (cur # rest) =
     (if (of_char cur :: nat) = 0 then rle_loop new (count + 1) rest
      else if count \<noteq> 0 then
        (if count < 256 then rle_loop (new @ [CHR 0x00, char_of count] @ [cur]) 0 rest
         else Inl ValueError)
      else rle_loop (new @ [cur]) count rest)"

definition rle_encode :: "string \<Rightarrow> error + string" where
  "rle_encode s = rle_loop [] 0 s"

text \<open>
  \<open>telethon.utils._encode_telegram_base64\<close>: URL-safe base64 without the padding.  On
  bytes nothing in it raises, so the \<open>None\<close> of its \<open>except\<close> branch is never returned.
\<close>

definition b64_alphabet :: string where
  "b64_alphabet = ''ABCDEFGHIJKLMNOPQRSTUVWXYZabcdefghijklmnopqrstuvwxyz0123456789-_''"

definition b64_char :: "nat \<Rightarrow> char" where
  "b64_char n = b64_alphabet ! (n mod 64)"

fun urlsafe_b64encode :: "nat list \<Rightarrow> string" where
  "urlsafe_b64encode [] = []"
| "urlsafe_b64encode [a] =
     [b64_char (a div 4), b64_char ((a mod 4) * 16), CHR ''='', CHR ''='']"
| "urlsafe_b64encode [a, b] =
     [b64_char (a div 4), b64_char ((a mod 4) * 16 + b div 16), b64_char ((b mod 16) * 4),
      CHR ''='']"
| "urlsafe_b64encode (a # b # c # rest) =
     [b64_char (a div 4), b64_char ((a mod 4) * 16 + b div 16),
      b64_char ((b mod 16) * 4 + c div 64), b64_char (c mod 64)] @ urlsafe_b64encode rest"

definition rstrip :: "char \<Rightarrow> string \<Rightarrow> string" where
  "rstrip c s = rev (dropWhile (\<lambda>x. x = c) (rev s))"

definition encode_telegram_base64 :: "string \<Rightarrow> string option" where
  "encode_telegram_base64 s = Some (rstrip CHR ''='' (urlsafe_b64encode (map of_char s)))"

subsection \<open>The decoders of the wrapped library\<close>

text \<open>
  \<open>telethon.utils._rle_decode\<close>, the inverse the identifiers are read with: after a zero
  byte the next byte is the length of a run of zero bytes; \<open>prev\<close> (\<open>last\<close> in the source) is empty or holds the
  byte read before.
\<close>

fun rle_decode_loop :: "string \<Rightarrow> string \<Rightarrow> string \<Rightarrow> string" where
  "rle_decode_loop new prev [] = new @ prev"
| "rle_decode_loop new prev (cur # rest) =
     (if prev = [CHR 0x00]
      then rle_decode_loop (new @ replicate (of_char cur) (CHR 0x00)) [] rest
      else rle_decode_loop (new @ prev) [cur] rest)"

definition rle_decode :: "string \<Rightarrow> string" where
  "rle_decode data_a = (if data_a = [] then data_a else rle_decode_loop [] [] data_a)"

text \<open>
  \<open>telethon.utils._decode_telegram_base64\<close>, which pads the string and decodes it as
  URL-safe base64, on strings over the 64 characters of the alphabet: four characters give
  three bytes, two left over one byte, three left over two bytes; one left over is not
  base64, and the function returns \<open>None\<close>.  (For a string with other characters the model
  gives \<open>None\<close> as well.)
\<close>

fun index_of :: "'a \<Rightarrow> 'a list \<Rightarrow> nat option" where
  "index_of x [] = None"
| "index_of x (y # ys) = (if x = y then Some 0 else map_option Suc (index_of x ys))"

fun sextets :: "string \<Rightarrow> nat list option" where
  "sextets [] = Some []"
| "sextets (c # cs) =
     (case index_of c b64_alphabet of
        None \<Rightarrow> None
      | Some n \<Rightarrow> map_option ((#) n) (sextets cs))"

fun b64_bytes :: "nat list \<Rightarrow> nat list option" where
  "b64_bytes [] = Some []"
| "b64_bytes [s1] = None"
| "b64_bytes [s1, s2] = Some [s1 * 4 + s2 div 16]"
| "b64_bytes [s1, s2, s3] = Some [s1 * 4 + s2 div 16, (s2 mod 16) * 16 + s3 div 4]"
| "b64_bytes (s1 # s2 # s3 # s4 # rest) =
     map_option (\<lambda>bs. [s1 * 4 + s2 div 16, (s2 mod 16) * 16 + s3 div 4, (s3 mod 4) * 64 + s4] @ bs)
       (b64_bytes rest)"

definition decode_telegram_base64 :: "string \<Rightarrow> string option" where
  "decode_telegram_base64 s =
     (case sextets s of
        None \<Rightarrow> None
      | Some sx \<Rightarrow> map_option (map char_of) (b64_bytes sx))"

subsection \<open>pack_bot_file_id\<close>

text \<open>The loop over the attributes: the first of the four kinds gives the type and breaks.\<close>

fun file_type_loop :: "int \<Rightarrow> DocumentAttribute list \<Rightarrow> int" where
  "file_type_loop file_type [] = file_type"
| "file_type_loop file_type (attribute # rest) =
     (case attribute of
        DocumentAttributeAudio v \<Rightarrow> (if v then 3 else 9)
      | DocumentAttributeVideo r \<Rightarrow> (if r then 13 else 4)
      | DocumentAttributeSticker \<Rightarrow> 8
      | DocumentAttributeAnimated \<Rightarrow> 10
      | _ \<Rightarrow> file_type_loop file_type rest)"

definition is_plain_size :: "PhotoSizeKind \<Rightarrow> bool" where
  "is_plain_size x = (x = PhotoSize \<or> x = PhotoCachedSize)"

text \<open>\<open>_encode_telegram_base64(_rle_encode(record))\<close>, for a record that was packed.\<close>

definition encode_record :: "error + string \<Rightarrow> error + string option" where
  "encode_record r =
     (case r of
        Inl e \<Rightarrow> Inl e
      | Inr b \<Rightarrow> (case rle_encode b of Inl e \<Rightarrow> Inl e | Inr z \<Rightarrow> Inr (encode_telegram_base64 z)))"

definition unwrap_media :: "File \<Rightarrow> File" where
  "unwrap_media file = (case file of
     MessageMediaDocument d \<Rightarrow> d
   | MessageMediaPhoto p \<Rightarrow> p
   | _ \<Rightarrow> file)"

definition pack_bot_file_id :: "File \<Rightarrow> error + string option" where
  "pack_bot_file_id file_a =
     (case unwrap_media file_a of
        IsDocument d \<Rightarrow>
          encode_record
            (struct_pack [Fmt_i, Fmt_i, Fmt_q, Fmt_q, Fmt_b]
               [file_type_loop 5 (attributes d), d_dc_id d, d_id d, d_access_hash d, 2])
      | IsPhoto p \<Rightarrow>
          (case find is_plain_size (rev (sizes p)) of
             None \<Rightarrow> Inr None
           | Some sz \<Rightarrow>
               encode_record
                 (struct_pack [Fmt_i, Fmt_i, Fmt_q, Fmt_q, Fmt_q, Fmt_q, Fmt_i, Fmt_b]
                    [2, p_dc_id p, p_id p, p_access_hash p, 0, 0, 0, 2]))
      | _ \<Rightarrow> Inr None)"

section \<open>Notions of the specification\<close>

text \<open>The flags of a constructor conflict: both visibilities asked, or both directions refused.\<close>

definition flags_conflict :: "bool option \<Rightarrow> bool option \<Rightarrow> bool \<Rightarrow> bool \<Rightarrow> bool" where
  "flags_conflict outgoing_a incoming_a private_a public_a =
     ((private_a \<and> public_a) \<or> (incoming_a = Some False \<and> outgoing_a = Some False))"

text \<open>The pattern given to a constructor is a string that compiles, a compiled pattern or \<open>None\<close>.\<close>

definition pattern_ok :: "(string \<Rightarrow> Pattern option) \<Rightarrow> pattern_arg \<Rightarrow> bool" where
  "pattern_ok re_compile pattern_a = (case pattern_a of
     PatternStr s \<Rightarrow> re_compile s \<noteq> None
   | PatternCompiled _ \<Rightarrow> True
   | PatternNone \<Rightarrow> True
   | PatternOther \<Rightarrow> False)"

text \<open>The same event, with the \<open>out\<close> flag of its message set.\<close>

definition set_out :: "bool \<Rightarrow> NewMessage_Event \<Rightarrow> NewMessage_Event" where
  "set_out o_flag ev = ev\<lparr>e_message := (e_message ev)\<lparr>out := o_flag\<rparr>\<rparr>"

text \<open>A message and an event used as concrete inputs.\<close>

definition sample_message :: Message where
  "sample_message = \<lparr>out = False, message = ''/start@otherbot now'',
      entities = Some [\<lparr>kind = MessageEntityBotCommand, offset = 0, e_length = 15\<rparr>],
      sender_id = Some 42, m_is_private = True, m_is_group = False, m_is_channel = False\<rparr>"

definition sample_event :: NewMessage_Event where
  "sample_event = \<lparr>e_message = sample_message, is_private = True, is_group = False,
      is_channel = False, me_username = Some ''mybot''\<rparr>"

text \<open>A client that has sent nothing, and events used as concrete inputs.\<close>

definition sample_client :: Client where
  "sample_client = \<lparr>sent = [], tasks = []\<rparr>"

definition sample_callback :: CallbackQuery_Event where
  "sample_callback = \<lparr>query = UpdateBotCallbackQuery 1 7 7 10 99 (Some ''manage_1''),
      answered = False, input_chat = Some 7\<rparr>"

definition sample_inline_callback :: CallbackQuery_Event where
  "sample_inline_callback =
     \<lparr>query = UpdateInlineBotCallbackQuery 2 7 (InputBotInlineMessageID 4 55 66) 99 (Some ''manage_1''),
      answered = False, input_chat = None\<rparr>"

definition sample_inline_query :: InlineQuery_Event where
  "sample_inline_query = \<lparr>iq_query_id = 3, iq_text = ''cats'', iq_answered = False\<rparr>"

text \<open>
  The segment of \<open>s\<close> before the first occurrence of \<open>sep\<close>: the whole of \<open>s\<close> when
  \<open>sep\<close> does not occur.
\<close>

fun before_first :: "'a list \<Rightarrow> 'a list \<Rightarrow> 'a list" where
  "before_first sep [] = []"
| "before_first sep (c # cs) = (if prefix sep (c # cs) then [] else c # before_first sep cs)"

text \<open>
  The command token of a message is the text of the entity without its first character (the
  slash); the bare command is what stands before the first \<open>@\<close> of the token, and the
  username suffix, when the token has an \<open>@\<close>, what stands between the first \<open>@\<close> and
  the next.
\<close>

definition bare_command :: "string \<Rightarrow> string" where
  "bare_command tok = takeWhile (\<lambda>x. x \<noteq> CHR ''@'') tok"

definition username_suffix :: "string \<Rightarrow> string option" where
  "username_suffix tok =
     (if CHR ''@'' \<in> set tok
      then Some (takeWhile (\<lambda>x. x \<noteq> CHR ''@'') (tl (dropWhile (\<lambda>x. x \<noteq> CHR ''@'') tok)))
      else None)"

definition command_token :: "Message \<Rightarrow> MessageEntity \<Rightarrow> string" where
  "command_token m ent = py_slice (message m) 1 (e_length ent)"

text \<open>The message \<open>/start\<close>, and a resolved \<open>Command("/start")\<close>, as concrete inputs.\<close>

definition start_message :: Message where
  "start_message = \<lparr>out = False, message = ''/start'',
      entities = Some [\<lparr>kind = MessageEntityBotCommand, offset = 0, e_length = 6\<rparr>],
      sender_id = Some 42, m_is_private = True, m_is_group = False, m_is_channel = False\<rparr>"

definition start_event :: NewMessage_Event where
  "start_event = \<lparr>e_message = start_message, is_private = True, is_group = False,
      is_channel = False, me_username = Some ''mybot''\<rparr>"

definition start_command :: Command where
  "start_command = \<lparr>resolved = True, func = None, pattern = None, incoming = None,
      outgoing = None, private_flag = False, public_flag = False, command = [''start'']\<rparr>"

text \<open>A callback whose payload is \<open>manage_1_2\<close>.\<close>

definition manage_1_2_callback :: CallbackQuery_Event where
  "manage_1_2_callback = \<lparr>query = UpdateBotCallbackQuery 1 7 7 10 99 (Some ''manage_1_2''),
      answered = False, input_chat = Some 7\<rparr>"

text \<open>
  The type code of a document as the specification gives it: that of the first attribute,
  in the order of the list, that is an audio, a video, a sticker or an animation, and 5
  when there is none.
\<close>

definition is_typed_attribute :: "DocumentAttribute \<Rightarrow> bool" where
  "is_typed_attribute a = (case a of
     DocumentAttributeAudio _ \<Rightarrow> True
   | DocumentAttributeVideo _ \<Rightarrow> True
   | DocumentAttributeSticker \<Rightarrow> True
   | DocumentAttributeAnimated \<Rightarrow> True
   | _ \<Rightarrow> False)"

definition type_code_of :: "DocumentAttribute \<Rightarrow> int" where
  "type_code_of a = (case a of
     DocumentAttributeAudio v \<Rightarrow> (if v then 3 else 9)
   | DocumentAttributeVideo r \<Rightarrow> (if r then 13 else 4)
   | DocumentAttributeSticker \<Rightarrow> 8
   | DocumentAttributeAnimated \<Rightarrow> 10
   | _ \<Rightarrow> 5)"

definition document_type_code :: "DocumentAttribute list \<Rightarrow> int" where
  "document_type_code attrs =
     (case find is_typed_attribute attrs of None \<Rightarrow> 5 | Some a \<Rightarrow> type_code_of a)"

text \<open>
  A value fits a signed field of the given number of bits; the fields of a document or a
  photo fit the fields of its record.
\<close>

definition fits :: "nat \<Rightarrow> int \<Rightarrow> bool" where
  "fits bits x = (- (2 ^ (bits - 1)) \<le> x \<and> x < 2 ^ (bits - 1))"

definition document_fits :: "Document \<Rightarrow> bool" where
  "document_fits d = (fits 32 (d_dc_id d) \<and> fits 64 (d_id d) \<and> fits 64 (d_access_hash d))"

definition photo_fits :: "Photo \<Rightarrow> bool" where
  "photo_fits p = (fits 32 (p_dc_id p) \<and> fits 64 (p_id p) \<and> fits 64 (p_access_hash p))"

text \<open>
  The record of a document: type code and datacenter on 32 bits, file id and access hash on
  64 bits, the version byte 2, each field little-endian; the record of a photo likewise.
  \<open>le_value\<close> reads a little-endian field back as an unsigned number.
\<close>

definition document_record :: "Document \<Rightarrow> string" where
  "document_record d =
     le_bytes 4 (document_type_code (attributes d)) @ le_bytes 4 (d_dc_id d)
     @ le_bytes 8 (d_id d) @ le_bytes 8 (d_access_hash d) @ [CHR 0x02]"

definition photo_record :: "Photo \<Rightarrow> string" where
  "photo_record p =
     le_bytes 4 2 @ le_bytes 4 (p_dc_id p) @ le_bytes 8 (p_id p)
     @ le_bytes 8 (p_access_hash p) @ le_bytes 8 0 @ le_bytes 8 0 @ le_bytes 4 0
     @ [CHR 0x02]"

definition le_value :: "string \<Rightarrow> int" where
  "le_value bs = foldr (\<lambda>b acc. of_char b + 256 * acc) bs 0"

text \<open>The sextets of the base64 encoding of a list of bytes, without padding.\<close>

fun sextets_of :: "nat list \<Rightarrow> nat list" where
  "sextets_of [] = []"
| "sextets_of [a] = [a div 4, (a mod 4) * 16]"
| "sextets_of [a, b] = [a div 4, (a mod 4) * 16 + b div 16, (b mod 16) * 4]"
| "sextets_of (a # b # c # rest) =
     [a div 4, (a mod 4) * 16 + b div 16, (b mod 16) * 4 + c div 64, c mod 64] @ sextets_of rest"

text \<open>The run-length decoding of a whole string, written by recursion on the string.\<close>

fun unrle :: "string \<Rightarrow> string" where
  "unrle [] = []"
| "unrle [c] = [c]"
| "unrle (z # n # rest) =
     (if z = CHR 0x00 then replicate (of_char n) (CHR 0x00) @ unrle rest else z # unrle (n # rest))"

text \<open>
  The inputs for which an identifier is due: a document, or a photo with a plain or a
  cached size, given as it is or in a media container.
\<close>

fun is_document_or_photo :: "File \<Rightarrow> bool" where
  "is_document_or_photo (IsDocument d) = True"
| "is_document_or_photo (IsPhoto p) = (\<exists>x \<in> set (sizes p). is_plain_size x)"
| "is_document_or_photo _ = False"

definition packable :: "File \<Rightarrow> bool" where
  "packable f = (case f of
     MessageMediaDocument g \<Rightarrow> is_document_or_photo g
   | MessageMediaPhoto g \<Rightarrow> is_document_or_photo g
   | _ \<Rightarrow> is_document_or_photo f)"


text \<open>The input is the document \<open>d\<close>, or the photo \<open>p\<close>, as it is or in a media container.\<close>

definition holds_document :: "File \<Rightarrow> Document \<Rightarrow> bool" where
  "holds_document f d =
     (f = IsDocument d \<or> f = MessageMediaDocument (IsDocument d)
      \<or> f = MessageMediaPhoto (IsDocument d))"

definition holds_photo :: "File \<Rightarrow> Photo \<Rightarrow> bool" where
  "holds_photo f p =
     (f = IsPhoto p \<or> f = MessageMediaDocument (IsPhoto p) \<or> f = MessageMediaPhoto (IsPhoto p))"

text \<open>
  A document and a photo used as concrete inputs, and two documents with a field that does
  not fit: a datacenter of \<open>2 ^ 31\<close>, a file id of \<open>2 ^ 63\<close>.
\<close>

definition sample_document :: Document where
  "sample_document = \<lparr>d_id = 123456789012, d_access_hash = - 987654321, d_dc_id = 2,
      attributes = [DocumentAttributeFilename ''x'', DocumentAttributeVideo False,
                    DocumentAttributeAudio True]\<rparr>"

definition sample_photo :: Photo where
  "sample_photo = \<lparr>p_id = 5, p_access_hash = 256, p_dc_id = 4,
      sizes = [PhotoStrippedSize, PhotoSize, PhotoSizeProgressive]\<rparr>"

definition wide_dc_document :: Document where
  "wide_dc_document = \<lparr>d_id = 1, d_access_hash = 1, d_dc_id = 2147483648, attributes = []\<rparr>"

definition wide_id_document :: Document where
  "wide_id_document = \<lparr>d_id = 9223372036854775808, d_access_hash = 1, d_dc_id = 2,
      attributes = [DocumentAttributeSticker]\<rparr>"

section \<open>Properties\<close>

subsection \<open>Construction of NewMessage\<close>


lemma NewMessage_init_success:
  "(\<exists>b. NewMessage_init rc pat outg inc f priv pub = Inr b)
     \<longleftrightarrow> \<not> flags_conflict outg inc priv pub \<and> pattern_ok rc pat"
  by (cases inc; cases outg; cases pat)
     (auto simp: NewMessage_init_def flags_conflict_def truthy_def pattern_ok_def
           split: option.splits)





subsection \<open>NewMessage with both directions asked\<close>

lemma NewMessage_init_both:
  "NewMessage_init rc pat (Some True) (Some True) f priv pub = Inr b
     \<Longrightarrow> incoming b = None \<and> outgoing b = None"
  by (cases pat) (auto simp: NewMessage_init_def truthy_def split: if_splits option.splits)

lemma NewMessage_init_both_succeeds:
  "\<not> (priv \<and> pub) \<and> pattern_ok rc pat
     \<Longrightarrow> \<exists>b. NewMessage_init rc pat (Some True) (Some True) f priv pub = Inr b"
  by (simp add: NewMessage_init_success flags_conflict_def)

lemma resolve_fields [simp]:
  "incoming (resolve b) = incoming b" "outgoing (resolve b) = outgoing b"
  "pattern (resolve b) = pattern b" "private_flag (resolve b) = private_flag b"
  "public_flag (resolve b) = public_flag b" "func (resolve b) = func b"
  "resolved (resolve b)"
  by (simp_all add: resolve_def)

lemma NewMessage_filter_out_irrelevant:
  assumes "incoming b = None" "outgoing b = None"
  shows "snd (NewMessage_filter b (set_out o_flag ev) now c) = snd (NewMessage_filter b ev now c)"
    and "fst (NewMessage_filter b (set_out o_flag ev) now c) = None
           \<longleftrightarrow> fst (NewMessage_filter b ev now c) = None"
    and "func b = None \<Longrightarrow>
           NewMessage_filter b (set_out o_flag ev) now c = NewMessage_filter b ev now c"
  using assms
  by (auto simp: NewMessage_filter_def set_out_def truthy_def EventBuilder_filter_def
           split: option.splits prod.splits bool.splits)

text \<open>
  C10: \<open>NewMessage(incoming=True, outgoing=True)\<close> does not raise (unless private and
  public are both set, or the pattern is not acceptable); both flags of the builder are \<open>None\<close>, and its filter does not look
  at the direction: whether the builder's own checks reject an event, and what they do to
  the spam guard, is the same for the event with its \<open>out\<close> flag changed, and without a
  user predicate the whole result is the same.
\<close>

theorem NewMessage_both_directions:
  "(\<not> (priv \<and> pub) \<and> pattern_ok rc pat \<longrightarrow>
      (\<exists>b. NewMessage_init rc pat (Some True) (Some True) f priv pub = Inr b)) \<and>
   (\<forall>b. NewMessage_init rc pat (Some True) (Some True) f priv pub = Inr b \<longrightarrow>
      incoming b = None \<and> outgoing b = None \<and>
      (\<forall>ev o_flag now c.
         snd (NewMessage_filter (resolve b) (set_out o_flag ev) now c)
           = snd (NewMessage_filter (resolve b) ev now c) \<and>
         (fst (NewMessage_filter (resolve b) (set_out o_flag ev) now c) = None
           \<longleftrightarrow> fst (NewMessage_filter (resolve b) ev now c) = None) \<and>
         (f = None \<longrightarrow> NewMessage_filter (resolve b) (set_out o_flag ev) now c
                        = NewMessage_filter (resolve b) ev now c)))"
proof (intro conjI allI impI)
  assume "\<not> (priv \<and> pub) \<and> pattern_ok rc pat"
  then show "\<exists>b. NewMessage_init rc pat (Some True) (Some True) f priv pub = Inr b"
    by (rule NewMessage_init_both_succeeds)
next
  fix b ev o_flag now c
  assume init: "NewMessage_init rc pat (Some True) (Some True) f priv pub = Inr b"
  then have dir: "incoming b = None" "outgoing b = None"
    using NewMessage_init_both by blast+
  then show "incoming b = None" "outgoing b = None" .
  have rdir: "incoming (resolve b) = None" "outgoing (resolve b) = None"
    using dir by simp_all
  show "snd (NewMessage_filter (resolve b) (set_out o_flag ev) now c)
          = snd (NewMessage_filter (resolve b) ev now c)"
    by (rule NewMessage_filter_out_irrelevant(1) [OF rdir])
  show "fst (NewMessage_filter (resolve b) (set_out o_flag ev) now c) = None
          \<longleftrightarrow> fst (NewMessage_filter (resolve b) ev now c) = None"
    by (rule NewMessage_filter_out_irrelevant(2) [OF rdir])
  assume "f = None"
  then have "func b = None"
    using init by (cases pat) (auto simp: NewMessage_init_def split: if_splits option.splits)
  then have "func (resolve b) = None" by simp
  then show "NewMessage_filter (resolve b) (set_out o_flag ev) now c
               = NewMessage_filter (resolve b) ev now c"
    by (rule NewMessage_filter_out_irrelevant(3) [OF rdir])
qed

theorem NewMessage_both_directions_witness:
  "\<exists>b. NewMessage_init (\<lambda>_. None) PatternNone (Some True) (Some True) None False False = Inr b \<and>
       incoming b = None \<and> outgoing b = None \<and>
       fst (NewMessage_filter (resolve b) (set_out True sample_event) 0 spam_cache_init) = Some True \<and>
       fst (NewMessage_filter (resolve b) (set_out False sample_event) 0 spam_cache_init) = Some True"
proof -
  let ?init = "NewMessage_init (\<lambda>_. None) PatternNone (Some True) (Some True) None False False"
  note t = NewMessage_both_directions [of False False "\<lambda>_. None" PatternNone None]
  have "\<not> (False \<and> False) \<and> pattern_ok (\<lambda>_. None) PatternNone"
    by (simp add: pattern_ok_def)
  with t obtain b where b: "?init = Inr b" by auto
  with t have dir: "incoming b = None" "outgoing b = None" by blast+
  from t b have same: "\<And>o_flag. NewMessage_filter (resolve b) (set_out o_flag sample_event) 0 spam_cache_init
      = NewMessage_filter (resolve b) sample_event 0 spam_cache_init" by blast
  have "b = \<lparr>resolved = False, func = None, pattern = None, incoming = None, outgoing = None,
             private_flag = False, public_flag = False\<rparr>"
    using b by (simp add: NewMessage_init_def truthy_def)
  then have "fst (NewMessage_filter (resolve b) sample_event 0 spam_cache_init) = Some True"
    by (simp add: NewMessage_filter_def resolve_def truthy_def sample_event_def
          sample_message_def is_spam_def cache_get_def spam_cache_init_def
          EventBuilder_filter_def)
  with same b dir show ?thesis by simp
qed

subsection \<open>Deleting the message of a callback\<close>

lemma via_inline_msg_id:
  "via_inline ev \<longleftrightarrow> (\<exists>i. msg_id (query ev) = InlineMsgId i)"
  by (cases "query ev") (simp_all add: via_inline_def msg_id_def)

lemma not_via_inline_msg_id:
  "\<not> via_inline ev \<Longrightarrow> msg_id (query ev) = PlainMsgId (bot_msg_id (query ev))"
  by (cases "query ev") (simp_all add: via_inline_def msg_id_def)

text \<open>
  C6: for a callback event that comes from an inline message (\<open>via_inline\<close>),
  \<open>delete\<close> raises \<open>TypeError\<close> and issues no request, so no delete request; it only
  creates the task that answers the callback.  For every other callback event it issues
  the request deleting the message of the callback, and returns what the server answers.
\<close>

theorem CallbackQuery_delete_inline:
  "(via_inline ev \<longrightarrow>
      CallbackQuery_delete server (ev, cl)
        = (Inl TypeError, ev, cl\<lparr>tasks := tasks cl @ [AnswerTask]\<rparr>) \<and>
      filter is_delete (sent (snd (snd (CallbackQuery_delete server (ev, cl)))))
        = filter is_delete (sent cl)) \<and>
   (\<not> via_inline ev \<longrightarrow>
      CallbackQuery_delete server (ev, cl)
        = (server (DeleteMessages (input_chat ev) [bot_msg_id (query ev)]), ev,
           cl\<lparr>tasks := tasks cl @ [AnswerTask],
              sent := sent cl @ [DeleteMessages (input_chat ev) [bot_msg_id (query ev)]]\<rparr>))"
proof (intro conjI impI)
  assume "via_inline ev"
  then obtain i where "msg_id (query ev) = InlineMsgId i"
    using via_inline_msg_id by blast
  then show inl: "CallbackQuery_delete server (ev, cl)
        = (Inl TypeError, ev, cl\<lparr>tasks := tasks cl @ [AnswerTask]\<rparr>)"
    by simp
  show "filter is_delete (sent (snd (snd (CallbackQuery_delete server (ev, cl)))))
        = filter is_delete (sent cl)"
    unfolding inl by simp
next
  assume "\<not> via_inline ev"
  then have "msg_id (query ev) = PlainMsgId (bot_msg_id (query ev))"
    by (rule not_via_inline_msg_id)
  then show "CallbackQuery_delete server (ev, cl)
        = (server (DeleteMessages (input_chat ev) [bot_msg_id (query ev)]), ev,
           cl\<lparr>tasks := tasks cl @ [AnswerTask],
              sent := sent cl @ [DeleteMessages (input_chat ev) [bot_msg_id (query ev)]]\<rparr>)"
    by (simp add: Let_def)
qed

theorem CallbackQuery_delete_inline_witness:
  "via_inline sample_inline_callback \<and>
   fst (CallbackQuery_delete (\<lambda>_. Inr 1) (sample_inline_callback, sample_client)) = Inl TypeError \<and>
   sent (snd (snd (CallbackQuery_delete (\<lambda>_. Inr 1) (sample_inline_callback, sample_client)))) = [] \<and>
   \<not> via_inline sample_callback \<and>
   sent (snd (snd (CallbackQuery_delete (\<lambda>_. Inr 1) (sample_callback, sample_client))))
     = [DeleteMessages (Some 7) [10]]"
proof -
  have v: "via_inline sample_inline_callback" "\<not> via_inline sample_callback"
    by (simp_all add: via_inline_def sample_inline_callback_def sample_callback_def)
  have q: "input_chat sample_callback = Some 7" "bot_msg_id (query sample_callback) = 10"
    by (simp_all add: sample_callback_def)
  show ?thesis
    using v q CallbackQuery_delete_inline [of sample_inline_callback "\<lambda>_. Inr 1" sample_client]
      CallbackQuery_delete_inline [of sample_callback "\<lambda>_. Inr 1" sample_client]
    by (simp add: sample_client_def)
qed

subsection \<open>Answering twice\<close>

text \<open>
  \<open>CallbackQuery.Event.answer\<close> sets \<open>_answered\<close> before it sends: a second call returns
  \<open>None\<close> and sends nothing.
\<close>

lemma CallbackQuery_answer_once:
  assumes "CallbackQuery_answer server m1 t1 u1 a1 (ev, cl) = (r1, ev1, cl1)"
  shows "CallbackQuery_answer server m2 t2 u2 a2 (ev1, cl1) = (Inr None, ev1, cl1)"
    and "length (sent cl1) \<le> Suc (length (sent cl))"
  using assms by (auto simp: Let_def split: if_splits)

text \<open>\<open>InlineQuery.Event.answer\<close> reads \<open>_answered\<close> and never sets it.\<close>

lemma InlineQuery_answer_keeps_flag:
  "InlineQuery_answer server rs t g n p sw sp (ev, cl) = (r, ev', cl') \<Longrightarrow> ev' = ev"
  by (auto simp: Let_def split: if_splits sum.splits)

lemma InlineQuery_answer_sends:
  "\<not> iq_answered ev \<Longrightarrow>
   sent (snd (snd (InlineQuery_answer server None t g n p None sp (ev, cl))))
     = sent cl @ [SetInlineBotResultsRequest (iq_query_id ev) [] t g n p None]"
  by (simp add: Let_def)

text \<open>
  C1 (answering twice performs the request at most once) holds for a callback event and
  fails for an inline query event: here \<open>answer()\<close> is called twice on an inline query that
  was not answered, the server accepting every request, and the request is sent twice.
\<close>

theorem InlineQuery_answer_twice:
  "(case InlineQuery_answer (\<lambda>_. Inr 1) None 0 False None False None [] (sample_inline_query, sample_client) of
      (r1, ev1, cl1) \<Rightarrow>
        (case InlineQuery_answer (\<lambda>_. Inr 1) None 0 False None False None [] (ev1, cl1) of
           (r2, ev2, cl2) \<Rightarrow>
             r1 = Inr (Some 1) \<and> r2 = Inr (Some 1) \<and>
             sent cl2 = [SetInlineBotResultsRequest 3 [] 0 False None False None,
                         SetInlineBotResultsRequest 3 [] 0 False None False None]))"
  by (simp add: sample_inline_query_def sample_client_def)

subsection \<open>The commands of Command\<close>

text \<open>A leading slash is removed, and a command without any slash is kept.\<close>

lemma remove1_leading_slash: "remove1 CHR ''/'' (CHR ''/'' # s) = s"
  by simp

lemma remove1_no_slash: "CHR ''/'' \<notin> set s \<Longrightarrow> remove1 CHR ''/'' s = s"
  by (rule remove1_idem)

lemma Command_init_start:
  "Command_init (CommandStr ''/start'') outg inc f priv pub
     = Command_init (CommandStr ''start'') outg inc f priv pub"
  by (simp add: Command_init_def)

text \<open>
  C4 (a command without a leading slash is stored unchanged) fails for a command with a
  slash further in: \<open>Command("a/b")\<close> stores \<open>ab\<close>.
\<close>

theorem Command_init_inner_slash:
  "map_sum id command (Command_init (CommandStr ''a/b'') None None None False False) = Inr [''ab'']"
  by (simp add: Command_init_def NewMessage_init_def truthy_def)

subsection \<open>Spam guard\<close>

lemma find_append_none:
  "\<forall>e \<in> set xs. \<not> P e \<Longrightarrow> find P (xs @ ys) = find P ys"
  by (induction xs) auto

lemma cache_get_absent:
  "expiry_of c now k = None \<Longrightarrow> cache_get c now k d = d"
  by (simp add: expiry_of_def cache_get_def)

lemma set_room_subset: "set (if b then drop n xs else xs) \<subseteq> set xs"
  by (simp add: set_drop_subset)

lemma cache_setitem_entries:
  "\<exists>room. entries (cache_setitem c now k v) = room @ [(k, v, now + ttl c)] \<and>
          (\<forall>e \<in> set room. fst e \<noteq> k)"
proof -
  define kept where "kept = filter (\<lambda>e. fst e \<noteq> k \<and> live now e) (entries c)"
  define room where "room = (if maxsize c \<le> length kept
               then drop (Suc (length kept) - maxsize c) kept else kept)"
  have "set room \<subseteq> set kept"
    unfolding room_def by (rule set_room_subset)
  moreover have "\<forall>e \<in> set kept. fst e \<noteq> k"
    by (simp add: kept_def)
  ultimately have "\<forall>e \<in> set room. fst e \<noteq> k" by blast
  moreover have "entries (cache_setitem c now k v) = room @ [(k, v, now + ttl c)]"
    by (simp add: cache_setitem_def Let_def room_def kept_def)
  ultimately show ?thesis by blast
qed

lemma cache_setitem_find:
  "find (\<lambda>e. fst e = k \<and> live t e) (entries (cache_setitem c now k v))
     = (if t < now + ttl c then Some (k, v, now + ttl c) else None)"
proof -
  obtain room where r: "entries (cache_setitem c now k v) = room @ [(k, v, now + ttl c)]"
    and nk: "\<forall>e \<in> set room. fst e \<noteq> k"
    using cache_setitem_entries [of c now k v] by (elim exE conjE)
  from nk have "\<forall>e \<in> set room. \<not> (fst e = k \<and> live t e)" by blast
  then have "find (\<lambda>e. fst e = k \<and> live t e) (room @ [(k, v, now + ttl c)])
          = find (\<lambda>e. fst e = k \<and> live t e) [(k, v, now + ttl c)]"
    by (rule find_append_none)
  also have "\<dots> = (if t < now + ttl c then Some (k, v, now + ttl c) else None)"
    by (simp add: live_def)
  finally show ?thesis by (simp only: r)
qed

lemma is_spam_first:
  assumes "expiry_of c t1 k = None"
  shows "is_spam t1 k c = (False, cache_setitem c t1 k 1)"
  using assms by (simp add: is_spam_def cache_get_absent)

lemma is_spam_keeps_ttl: "ttl (snd (is_spam now k c)) = ttl c"
  by (simp add: is_spam_def cache_setitem_def Let_def)

text \<open>
  C7: when \<open>is_spam\<close> is called for an id that has no unexpired entry, it returns
  \<open>False\<close> and leaves an entry that expires one time-to-live later (0.6 s in
  \<open>spam_cache_init\<close>).  A call for the same id before that instant returns \<open>True\<close> and
  leaves the cache as it is, so the expiry is not reset; a call at or after that instant
  returns \<open>False\<close> again.
\<close>

theorem is_spam_window:
  assumes "expiry_of c t1 k = None"
  shows "fst (is_spam t1 k c) = False \<and>
         (\<forall>t2. t1 \<le> t2 \<and> t2 < t1 + ttl c \<longrightarrow>
            expiry_of (snd (is_spam t1 k c)) t2 k = Some (t1 + ttl c) \<and>
            is_spam t2 k (snd (is_spam t1 k c)) = (True, snd (is_spam t1 k c))) \<and>
         (\<forall>t3. t1 + ttl c \<le> t3 \<longrightarrow> fst (is_spam t3 k (snd (is_spam t1 k c))) = False)"
proof -
  let ?c1 = "cache_setitem c t1 k 1"
  have first: "is_spam t1 k c = (False, ?c1)"
    using assms by (rule is_spam_first)
  have window: "expiry_of ?c1 t2 k = Some (t1 + ttl c) \<and> is_spam t2 k ?c1 = (True, ?c1)"
    if "t2 < t1 + ttl c" for t2
    using that by (simp add: expiry_of_def is_spam_def cache_get_def cache_setitem_find)
  have after: "fst (is_spam t3 k ?c1) = False" if "t1 + ttl c \<le> t3" for t3
    using that by (simp add: is_spam_def cache_get_def cache_setitem_find)
  show ?thesis
    using window after by (simp add: first)
qed




theorem is_spam_window_witness:
  "expiry_of spam_cache_init 0 (Some 42) = None \<and>
   fst (is_spam 0 (Some 42) spam_cache_init) = False \<and>
   is_spam (3 / 10) (Some 42) (snd (is_spam 0 (Some 42) spam_cache_init))
     = (True, snd (is_spam 0 (Some 42) spam_cache_init)) \<and>
   expiry_of (snd (is_spam 0 (Some 42) spam_cache_init)) (3 / 10) (Some 42) = Some (6 / 10) \<and>
   fst (is_spam (6 / 10) (Some 42) (snd (is_spam 0 (Some 42) spam_cache_init))) = False"
proof -
  have h: "expiry_of spam_cache_init 0 (Some 42) = None"
    by (simp add: expiry_of_def spam_cache_init_def)
  have t: "ttl spam_cache_init = 6 / 10"
    by (simp add: spam_cache_init_def)
  note w = is_spam_window [OF h, unfolded t]
  from w have a: "fst (is_spam 0 (Some 42) spam_cache_init) = False" by (rule conjunct1)
  from w have "\<forall>t2. 0 \<le> t2 \<and> t2 < 0 + 6 / 10 \<longrightarrow>
            expiry_of (snd (is_spam 0 (Some 42) spam_cache_init)) t2 (Some 42) = Some (0 + 6 / 10) \<and>
            is_spam t2 (Some 42) (snd (is_spam 0 (Some 42) spam_cache_init))
              = (True, snd (is_spam 0 (Some 42) spam_cache_init))"
    by (elim conjE)
  then have b: "(0::real) \<le> 3 / 10 \<and> (3 / 10 :: real) < 0 + 6 / 10 \<longrightarrow>
            expiry_of (snd (is_spam 0 (Some 42) spam_cache_init)) (3 / 10) (Some 42) = Some (0 + 6 / 10) \<and>
            is_spam (3 / 10) (Some 42) (snd (is_spam 0 (Some 42) spam_cache_init))
              = (True, snd (is_spam 0 (Some 42) spam_cache_init))"
    by (rule spec)
  from w have "\<forall>t3. 0 + 6 / 10 \<le> t3 \<longrightarrow>
      fst (is_spam t3 (Some 42) (snd (is_spam 0 (Some 42) spam_cache_init))) = False"
    by (elim conjE)
  then have c: "(0 + 6 / 10 :: real) \<le> 6 / 10 \<longrightarrow>
      fst (is_spam (6 / 10) (Some 42) (snd (is_spam 0 (Some 42) spam_cache_init))) = False"
    by (rule spec)
  from b have b': "expiry_of (snd (is_spam 0 (Some 42) spam_cache_init)) (3 / 10) (Some 42) = Some (6 / 10) \<and>
            is_spam (3 / 10) (Some 42) (snd (is_spam 0 (Some 42) spam_cache_init))
              = (True, snd (is_spam 0 (Some 42) spam_cache_init))"
    by simp
  from c have c': "fst (is_spam (6 / 10) (Some 42) (snd (is_spam 0 (Some 42) spam_cache_init))) = False"
    by simp
  show ?thesis using h a b' c' by (intro conjI) (elim conjE, assumption)+
qed

subsection \<open>Splitting and counting\<close>

lemma split_loop_hd:
  "hd (split_loop sep (Some (Suc n)) acc s) = acc @ before_first sep s"
  by (induction s arbitrary: acc) simp_all

lemma split_loop_hd_unbounded:
  "hd (split_loop sep None acc s) = acc @ before_first sep s"
  by (induction s arbitrary: acc) simp_all

lemma split_loop_not_Nil: "split_loop sep m acc s \<noteq> []"
  by (induction sep m acc s rule: split_loop.induct) simp_all

lemma before_first_single: "before_first [c] s = takeWhile (\<lambda>x. x \<noteq> c) s"
  by (induction s) auto

lemma split_loop_single:
  "split_loop [c] None acc s =
     (acc @ takeWhile (\<lambda>x. x \<noteq> c) s)
     # (if c \<in> set s then split_loop [c] None [] (tl (dropWhile (\<lambda>x. x \<noteq> c) s)) else [])"
  by (induction s arbitrary: acc) auto

lemma count_loop_single: "count_loop [c] s = count_list s c"
  by (induction s) auto

lemma before_first_prefix: "prefix (before_first sep s) s"
  by (induction s) auto

lemma before_first_no_occurrence:
  "sep \<noteq> [] \<Longrightarrow> count_loop sep s = 0 \<Longrightarrow> before_first sep s = s"
  by (induction s) (auto split: if_splits)

subsection \<open>The filter of Command\<close>

lemma split_at_token:
  "\<exists>more. split_loop ''@'' None [] tok
     = bare_command tok
       # (case username_suffix tok of None \<Rightarrow> [] | Some u \<Rightarrow> u # more)"
proof (cases "CHR ''@'' \<in> set tok")
  case True
  let ?rest = "tl (dropWhile (\<lambda>x. x \<noteq> CHR ''@'') tok)"
  have outer: "split_loop ''@'' None [] tok = bare_command tok # split_loop ''@'' None [] ?rest"
    using True split_loop_single [of "CHR ''@''" "[]" tok] by (simp add: bare_command_def)
  obtain more where "split_loop ''@'' None [] ?rest = takeWhile (\<lambda>x. x \<noteq> CHR ''@'') ?rest # more"
    using split_loop_single [of "CHR ''@''" "[]" ?rest] by simp
  then show ?thesis
    using True outer by (simp add: username_suffix_def)
next
  case False
  then show ?thesis
    using split_loop_single [of "CHR ''@''" "[]" tok]
    by (simp add: bare_command_def username_suffix_def)
qed

lemma Command_filter_accept:
  assumes "Command_filter self ev now c = Inr (Some True, c')"
  shows "\<exists>ent rest. entities (e_message ev) = Some (ent # rest) \<and>
           kind ent = MessageEntityBotCommand \<and> offset ent = 0 \<and>
           bare_command (command_token (e_message ev) ent) \<in> set (command self) \<and>
           (username_suffix (command_token (e_message ev) ent) = None \<or>
            username_suffix (command_token (e_message ev) ent) = me_username ev)"
proof -
  from assms obtain ent rest where ents: "entities (e_message ev) = Some (ent # rest)"
    by (auto simp: Command_filter_def Let_def split: if_splits option.splits list.splits)
  from assms ents have k: "kind ent = MessageEntityBotCommand" "offset ent = 0"
    by (auto simp: Command_filter_def Let_def split: if_splits)
  let ?tok = "command_token (e_message ev) ent"
  obtain more where sp: "split_loop ''@'' None [] (py_slice (message (e_message ev)) 1 (e_length ent))
          = bare_command ?tok # (case username_suffix ?tok of None \<Rightarrow> [] | Some u \<Rightarrow> u # more)"
    using split_at_token [of ?tok] by (auto simp: command_token_def)
  from assms have "bare_command ?tok \<in> set (command self) \<and>
           (username_suffix ?tok = None \<or> username_suffix ?tok = me_username ev)"
    unfolding Command_filter_def Let_def ents
    by (simp add: k sp split: if_splits option.splits)
  with ents k show ?thesis by blast
qed

lemma Command_filter_wrong_username:
  assumes "entities (e_message ev) = Some (ent # rest)"
    and "username_suffix (command_token (e_message ev) ent) = Some u"
    and "Some u \<noteq> me_username ev"
  shows "Command_filter self ev now c = Inr (None, c)"
proof -
  let ?tok = "command_token (e_message ev) ent"
  obtain more where sp: "split_loop ''@'' None [] (py_slice (message (e_message ev)) 1 (e_length ent))
          = bare_command ?tok # u # more"
    using split_at_token [of ?tok] assms(2) by (auto simp: command_token_def)
  show ?thesis
  proof (cases "kind ent \<noteq> MessageEntityBotCommand \<or> offset ent \<noteq> 0")
    case True
    then show ?thesis
      unfolding Command_filter_def Let_def assms(1) by auto
  next
    case False
    then show ?thesis
      unfolding Command_filter_def Let_def assms(1) using assms(3) by (simp add: sp)
  qed
qed

lemma Command_filter_no_suffix:
  assumes "entities (e_message ev) = Some (ent # rest)"
    and "username_suffix (command_token (e_message ev) ent) = None"
    and "func self = None"
  shows "Command_filter self (ev\<lparr>me_username := u\<rparr>) now c = Command_filter self ev now c"
proof -
  let ?tok = "command_token (e_message ev) ent"
  have sp: "split_loop ''@'' None [] (py_slice (message (e_message ev)) 1 (e_length ent))
          = [bare_command ?tok]"
    using split_at_token [of ?tok] assms(2) by (auto simp: command_token_def)
  show ?thesis
  proof (cases "kind ent \<noteq> MessageEntityBotCommand \<or> offset ent \<noteq> 0")
    case True
    then show ?thesis
      unfolding Command_filter_def Let_def by (auto simp: assms(1))
  next
    case False
    then show ?thesis
      unfolding Command_filter_def Let_def
      by (simp add: assms(1) sp EventBuilder_filter_def assms(3) split: prod.splits bool.splits)
  qed
qed

lemma Command_filter_rejects_without_entity:
  "entities (e_message ev) = None \<or> entities (e_message ev) = Some [] \<or>
   (\<exists>ent rest. entities (e_message ev) = Some (ent # rest) \<and>
      (kind ent \<noteq> MessageEntityBotCommand \<or> offset ent \<noteq> 0))
   \<Longrightarrow> Command_filter self ev now c = Inr (None, c)"
  unfolding Command_filter_def Let_def by auto


text \<open>
  C5: the filter of \<open>Command\<close> accepts an event only if the first entity of the message is
  a bot command at offset 0, the bare command of its token is one of the configured
  commands, and the token has no username suffix or the suffix is the username of the bot.
  It rejects when the entities are missing or empty, or the first one is of another kind or
  at another offset, and when the suffix differs from the username of the bot.  Without a
  suffix (and without a user predicate) the result does not depend on the username.
\<close>

theorem Command_filter_command_entity:
  "(Command_filter self ev now c = Inr (Some True, c') \<longrightarrow>
      (\<exists>ent rest. entities (e_message ev) = Some (ent # rest) \<and>
         kind ent = MessageEntityBotCommand \<and> offset ent = 0 \<and>
         bare_command (command_token (e_message ev) ent) \<in> set (command self) \<and>
         (username_suffix (command_token (e_message ev) ent) = None \<or>
          username_suffix (command_token (e_message ev) ent) = me_username ev))) \<and>
   (entities (e_message ev) = None \<or> entities (e_message ev) = Some [] \<or>
    (\<exists>ent rest. entities (e_message ev) = Some (ent # rest) \<and>
       (kind ent \<noteq> MessageEntityBotCommand \<or> offset ent \<noteq> 0))
      \<longrightarrow> Command_filter self ev now c = Inr (None, c)) \<and>
   (\<forall>ent rest u. entities (e_message ev) = Some (ent # rest) \<and>
       username_suffix (command_token (e_message ev) ent) = Some u \<and>
       Some u \<noteq> me_username ev
      \<longrightarrow> Command_filter self ev now c = Inr (None, c)) \<and>
   (\<forall>ent rest u. entities (e_message ev) = Some (ent # rest) \<and>
       username_suffix (command_token (e_message ev) ent) = None \<and> func self = None
      \<longrightarrow> Command_filter self (ev\<lparr>me_username := u\<rparr>) now c = Command_filter self ev now c)"
proof (intro conjI allI impI)
  assume "Command_filter self ev now c = Inr (Some True, c')"
  then show "\<exists>ent rest. entities (e_message ev) = Some (ent # rest) \<and>
         kind ent = MessageEntityBotCommand \<and> offset ent = 0 \<and>
         bare_command (command_token (e_message ev) ent) \<in> set (command self) \<and>
         (username_suffix (command_token (e_message ev) ent) = None \<or>
          username_suffix (command_token (e_message ev) ent) = me_username ev)"
    by (rule Command_filter_accept)
next
  assume "entities (e_message ev) = None \<or> entities (e_message ev) = Some [] \<or>
    (\<exists>ent rest. entities (e_message ev) = Some (ent # rest) \<and>
       (kind ent \<noteq> MessageEntityBotCommand \<or> offset ent \<noteq> 0))"
  then show "Command_filter self ev now c = Inr (None, c)"
    by (rule Command_filter_rejects_without_entity)
next
  fix ent rest u
  assume "entities (e_message ev) = Some (ent # rest) \<and>
       username_suffix (command_token (e_message ev) ent) = Some u \<and>
       Some u \<noteq> me_username ev"
  then show "Command_filter self ev now c = Inr (None, c)"
    using Command_filter_wrong_username [of ev ent rest u self now c] by (elim conjE) simp
next
  fix ent rest u
  assume "entities (e_message ev) = Some (ent # rest) \<and>
       username_suffix (command_token (e_message ev) ent) = None \<and> func self = None"
  then show "Command_filter self (ev\<lparr>me_username := u\<rparr>) now c = Command_filter self ev now c"
    using Command_filter_no_suffix [of ev ent rest self u now c] by (elim conjE) simp
qed

lemma start_command_built:
  "map_sum id resolve (Command_init (CommandStr ''/start'') None None None False False)
     = Inr start_command"
  by (simp add: Command_init_def NewMessage_init_def truthy_def resolve_def start_command_def)

lemma start_event_accepted:
  "Command_filter start_command start_event 0 spam_cache_init
     = Inr (Some True, snd (is_spam 0 (Some 42) spam_cache_init))"
  by (simp add: Command_filter_def start_command_def start_event_def start_message_def
        py_slice_def clamp_index_def truthy_def is_spam_def cache_get_def spam_cache_init_def
        EventBuilder_filter_def)

lemma start_token:
  "command_token (e_message start_event)
     \<lparr>kind = MessageEntityBotCommand, offset = 0, e_length = 6\<rparr> = ''start''"
  "command_token (e_message sample_event)
     \<lparr>kind = MessageEntityBotCommand, offset = 0, e_length = 15\<rparr> = ''start@otherbot''"
  by (simp_all add: command_token_def start_event_def sample_event_def start_message_def
        sample_message_def py_slice_def clamp_index_def)

theorem Command_filter_command_entity_witness:
  "Command_filter start_command start_event 0 spam_cache_init
     = Inr (Some True, snd (is_spam 0 (Some 42) spam_cache_init)) \<and>
   bare_command ''start'' \<in> set (command start_command) \<and>
   username_suffix ''start'' = None \<and>
   (\<forall>u. Command_filter start_command (start_event\<lparr>me_username := u\<rparr>) 0 spam_cache_init
          = Inr (Some True, snd (is_spam 0 (Some 42) spam_cache_init))) \<and>
   username_suffix ''start@otherbot'' = Some ''otherbot'' \<and>
   Command_filter start_command sample_event 0 spam_cache_init = Inr (None, spam_cache_init)"
proof -
  let ?c1 = "snd (is_spam 0 (Some 42) spam_cache_init)"
  let ?e1 = "\<lparr>kind = MessageEntityBotCommand, offset = 0, e_length = 6\<rparr>"
  let ?e2 = "\<lparr>kind = MessageEntityBotCommand, offset = 0, e_length = 15\<rparr>"
  note t = Command_filter_command_entity [of start_command start_event 0 spam_cache_init ?c1]
  note t' = Command_filter_command_entity [of start_command sample_event 0 spam_cache_init ?c1]
  have ents: "entities (e_message start_event) = Some [?e1]"
    by (simp add: start_event_def start_message_def)
  have ents': "entities (e_message sample_event) = Some [?e2]"
    and me: "me_username sample_event = Some ''mybot''"
    by (simp_all add: sample_event_def sample_message_def)
  have s1: "username_suffix ''start'' = None" "bare_command ''start'' = ''start''"
    by (simp_all add: username_suffix_def bare_command_def)
  have s2: "username_suffix ''start@otherbot'' = Some ''otherbot''"
    by (simp add: username_suffix_def)
  have f: "func start_command = None" "command start_command = [''start'']"
    by (simp_all add: start_command_def)
  have same: "Command_filter start_command (start_event\<lparr>me_username := u\<rparr>) 0 spam_cache_init
          = Command_filter start_command start_event 0 spam_cache_init" for u
    by (rule t [THEN conjunct2, THEN conjunct2, THEN conjunct2, rule_format, of ?e1 "[]" u])
       (simp only: ents start_token s1 f simp_thms)
  have b: "Command_filter start_command sample_event 0 spam_cache_init = Inr (None, spam_cache_init)"
    by (rule t' [THEN conjunct2, THEN conjunct2, THEN conjunct1, rule_format, of ?e2 "[]" "''otherbot''"])
       (simp add: ents' start_token s2 me)
  show ?thesis
    using same b s1 s2 f start_event_accepted by simp
qed

subsection \<open>The filter of CallbackQuery\<close>

lemma first_item_split_loop:
  "first_item (split_loop sep (Some (Suc n)) [] p) = Inr (before_first sep p)"
proof -
  obtain x xs where "split_loop sep (Some (Suc n)) [] p = x # xs"
    using split_loop_not_Nil [of sep "Some (Suc n)" "[]" p] by (cases "split_loop sep (Some (Suc n)) [] p") auto
  moreover from this have "x = before_first sep p"
    using split_loop_hd [of sep n "[]" p] by simp
  ultimately show ?thesis by (simp add: first_item_def)
qed

lemma data_check_no_split:
  assumes "data_check self payload = Inr Continues" "cb_data self = Some d" "d \<noteq> []"
    and "\<not> bytes_truthy (split_char self)"
  shows "payload = Some d"
  using assms by (auto simp: data_check_def bytes_truthy_def split: if_splits)

lemma data_check_split:
  assumes "data_check self payload = Inr Continues" "cb_data self = Some d" "d \<noteq> []"
    and "split_char self = Some s" "s \<noteq> []"
  shows "\<exists>p. payload = Some p \<and> before_first s p = d \<and>
           (\<forall>n. split_char_count self = Some n \<and> n \<noteq> 0 \<longrightarrow> int (count_loop s p) = n)"
proof -
  have bt: "bytes_truthy (cb_data self)" "bytes_truthy (split_char self)"
    using assms by (simp_all add: bytes_truthy_def)
  from assms(1) obtain p where p: "payload = Some p"
    unfolding data_check_def using bt
    by (cases payload) (auto split: if_splits sum.splits flow.splits)
  have seg: "before_first s p = d"
    using assms(1) bt unfolding data_check_def p
    by (auto simp: assms(2,4,5) bytes_split_def numeral_2_eq_2 first_item_split_loop
             split: if_splits sum.splits flow.splits)
  have cnt: "int (count_loop s p) = n" if "split_char_count self = Some n" "n \<noteq> 0" for n
    using assms(1) bt that unfolding data_check_def p
    by (auto simp: assms(2,4,5) bytes_count_def count_truthy_def
             split: if_splits sum.splits flow.splits)
  show ?thesis using p seg cnt by blast
qed

lemma CallbackQuery_filter_accept:
  "CallbackQuery_filter self ev now c = Inr (Some True, c')
     \<Longrightarrow> data_check self (data (query ev)) = Inr Continues"
  by (auto simp: CallbackQuery_filter_def split: sum.splits flow.splits bool.splits prod.splits)

text \<open>
  What the filter does ensure: for a \<open>CallbackQuery\<close> builder with non-empty data \<open>d\<close>, it
  accepts an event only when, without a split separator, the payload is \<open>d\<close>; with a
  separator \<open>s\<close>, the segment of the payload before the first \<open>s\<close> is \<open>d\<close>; and with
  \<open>split=(s, n)\<close> for an \<open>n\<close> other than 0, the payload has exactly \<open>n\<close> occurrences of
  \<open>s\<close>.
\<close>

theorem CallbackQuery_filter_data:
  assumes "CallbackQuery_filter self ev now c = Inr (Some True, c')"
    and "cb_data self = Some d" and "d \<noteq> []"
  shows "(\<not> bytes_truthy (split_char self) \<longrightarrow> data (query ev) = Some d) \<and>
         (\<forall>s. split_char self = Some s \<and> s \<noteq> [] \<longrightarrow>
            (\<exists>p. data (query ev) = Some p \<and> before_first s p = d \<and>
               (\<forall>n. split_char_count self = Some n \<and> n \<noteq> 0 \<longrightarrow> int (count_loop s p) = n)))"
proof -
  have dc: "data_check self (data (query ev)) = Inr Continues"
    using assms(1) by (rule CallbackQuery_filter_accept)
  show ?thesis
  proof (intro conjI allI impI)
    assume "\<not> bytes_truthy (split_char self)"
    with dc assms(2,3) show "data (query ev) = Some d"
      by (rule data_check_no_split)
  next
    fix s assume "split_char self = Some s \<and> s \<noteq> []"
    then have "split_char self = Some s" "s \<noteq> []" by simp_all
    with dc assms(2,3) show "\<exists>p. data (query ev) = Some p \<and> before_first s p = d \<and>
               (\<forall>n. split_char_count self = Some n \<and> n \<noteq> 0 \<longrightarrow> int (count_loop s p) = n)"
      by (rule data_check_split)
  qed
qed

lemma manage_init:
  "resolve (CallbackQuery_init (Str ''manage'') (SplitTuple (Str ''_'') n) None)
     = \<lparr>resolved = True, func = None, cb_data = Some ''manage'', split_char = Some ''_'',
        split_char_count = Some n\<rparr>"
  by (simp add: CallbackQuery_init_def resolve_def to_bytes_def utf8_encode_def)

text \<open>
  The guard of the count check tests the truth value of the count, so a count of 0 is
  taken for a count that was not given: the filter does the same with \<open>split=(s, 0)\<close> as
  with \<open>split=s\<close>.
\<close>

lemma data_check_count_zero:
  "data_check (self\<lparr>split_char_count := Some 0\<rparr>) payload
     = data_check (self\<lparr>split_char_count := None\<rparr>) payload"
  by (simp add: data_check_def count_truthy_def split: option.splits sum.splits)

lemma CallbackQuery_filter_zero_like_none:
  "CallbackQuery_filter (self\<lparr>split_char_count := Some 0\<rparr>) event now cache
     = CallbackQuery_filter (self\<lparr>split_char_count := None\<rparr>) event now cache"
  by (simp add: CallbackQuery_filter_def data_check_count_zero EventBuilder_filter_def
        split: sum.splits flow.splits prod.splits bool.splits)

text \<open>
  C2 (with \<open>split=(s, n)\<close> the payload must have exactly \<open>n\<close> occurrences of \<open>s\<close>, for
  every \<open>n\<close>, 0 included) is not what the code does for \<open>n = 0\<close>:
  \<open>CallbackQuery("manage", split=("_", 0))\<close> accepts the payload \<open>manage_1\<close>, which has
  one separator.
\<close>

theorem CallbackQuery_filter_count_zero:
  "CallbackQuery_filter (resolve (CallbackQuery_init (Str ''manage'') (SplitTuple (Str ''_'') 0) None))
      sample_callback 0 spam_cache_init
     = Inr (Some True, snd (is_spam 0 (Some 7) spam_cache_init)) \<and>
   data (query sample_callback) = Some ''manage_1'' \<and>
   count_loop ''_'' ''manage_1'' = 1"
  by (simp add: manage_init CallbackQuery_filter_def data_check_def bytes_truthy_def
        count_truthy_def sample_callback_def bytes_split_def first_item_def numeral_2_eq_2
        is_spam_def cache_get_def spam_cache_init_def EventBuilder_filter_def)

text \<open>\<open>CallbackQuery("manage", split=("_", 2))\<close> accepts \<open>manage_1_2\<close> and rejects \<open>manage_1\<close>.\<close>

lemma manage_2_accepts:
  "CallbackQuery_filter (resolve (CallbackQuery_init (Str ''manage'') (SplitTuple (Str ''_'') 2) None))
      manage_1_2_callback 0 spam_cache_init
     = Inr (Some True, snd (is_spam 0 (Some 7) spam_cache_init))"
  by (simp add: manage_init CallbackQuery_filter_def data_check_def bytes_truthy_def
        count_truthy_def manage_1_2_callback_def bytes_split_def bytes_count_def first_item_def
        numeral_2_eq_2 is_spam_def cache_get_def spam_cache_init_def EventBuilder_filter_def)

lemma manage_2_rejects:
  "CallbackQuery_filter (resolve (CallbackQuery_init (Str ''manage'') (SplitTuple (Str ''_'') 2) None))
      sample_callback 0 spam_cache_init
     = Inr (None, spam_cache_init)"
  by (simp add: manage_init CallbackQuery_filter_def data_check_def bytes_truthy_def
        count_truthy_def sample_callback_def bytes_split_def bytes_count_def first_item_def
        numeral_2_eq_2)

theorem CallbackQuery_filter_data_witness:
  "CallbackQuery_filter (resolve (CallbackQuery_init (Str ''manage'') (SplitTuple (Str ''_'') 2) None))
      manage_1_2_callback 0 spam_cache_init
     = Inr (Some True, snd (is_spam 0 (Some 7) spam_cache_init)) \<and>
   (\<exists>p. data (query manage_1_2_callback) = Some p \<and> before_first ''_'' p = ''manage'' \<and>
        int (count_loop ''_'' p) = 2)"
proof -
  let ?b = "resolve (CallbackQuery_init (Str ''manage'') (SplitTuple (Str ''_'') 2) None)"
  have f: "cb_data ?b = Some ''manage''" "split_char ?b = Some ''_''" "split_char_count ?b = Some 2"
    by (simp_all add: manage_init)
  have ne: "''manage'' \<noteq> []" "''_'' \<noteq> []" by simp_all
  note t = CallbackQuery_filter_data [OF manage_2_accepts f(1) ne(1), THEN conjunct2,
      rule_format, of "''_''"]
  have "\<exists>p. data (query manage_1_2_callback) = Some p \<and> before_first ''_'' p = ''manage'' \<and>
      (\<forall>n. split_char_count ?b = Some n \<and> n \<noteq> 0 \<longrightarrow> int (count_loop ''_'' p) = n)"
    by (rule t) (simp only: f simp_thms, simp)
  then show ?thesis
    using manage_2_accepts by (auto simp: f)
qed

subsection \<open>The encoders and the decoders\<close>

lemma rle_decode_loop_unrle:
  assumes "length prev \<le> 1"
  shows "rle_decode_loop new prev s = new @ unrle (prev @ s)"
  using assms
proof (induction s arbitrary: new prev)
  case Nil
  then show ?case by (cases prev) (auto simp: Suc_le_eq)
next
  case (Cons cur rest)
  show ?case
  proof (cases prev)
    case Nil
    then show ?thesis using Cons.IH [of "[cur]" new] by simp
  next
    case (Cons l ls)
    with Cons.prems have ls: "ls = []" by simp
    show ?thesis
    proof (cases "l = CHR 0x00")
      case True
      then show ?thesis using Cons.IH [of "[]" "new @ replicate (of_char cur) (CHR 0x00)"] Cons ls
        by simp
    next
      case False
      then show ?thesis using Cons.IH [of "[cur]" "new @ [l]"] Cons ls
        by (cases rest) simp_all
    qed
  qed
qed

lemma rle_decode_unrle: "rle_decode s = unrle s"
  using rle_decode_loop_unrle [of "[]" "[]" s] by (simp add: rle_decode_def)

lemma of_char_zero_iff: "(of_char c :: nat) = 0 \<longleftrightarrow> c = CHR 0x00"
proof -
  have "(of_char c :: nat) = of_char (CHR 0x00) \<longleftrightarrow> c = CHR 0x00"
    by (rule of_char_eq_iff)
  then show ?thesis by simp
qed

lemma unrle_Cons_nonzero: "c \<noteq> CHR 0x00 \<Longrightarrow> unrle (c # z) = c # unrle z"
  by (cases z) simp_all

lemma rle_loop_unrle:
  assumes "count + length s < 256" and "s = [] \<longrightarrow> count = 0"
    and "s \<noteq> [] \<longrightarrow> last s \<noteq> CHR 0x00"
  shows "\<exists>z. rle_loop new count s = Inr (new @ z) \<and> unrle z = replicate count (CHR 0x00) @ s"
  using assms
proof (induction s arbitrary: new count)
  case Nil
  then show ?case by simp
next
  case (Cons cur rest)
  show ?case
  proof (cases "cur = CHR 0x00")
    case True
    with Cons.prems have ne: "rest \<noteq> []" by auto
    with Cons.prems have "Suc count + length rest < 256" "rest = [] \<longrightarrow> Suc count = 0"
      "rest \<noteq> [] \<longrightarrow> last rest \<noteq> CHR 0x00"
      by simp_all
    from Cons.IH [OF this, of new] obtain z where
      z: "rle_loop new (Suc count) rest = Inr (new @ z)"
         "unrle z = replicate (Suc count) (CHR 0x00) @ rest"
      by blast
    have "replicate (Suc count) (CHR 0x00) @ rest = replicate count (CHR 0x00) @ cur # rest"
      using True by (simp add: replicate_app_Cons_same)
    with z True show ?thesis by (simp add: of_char_zero_iff)
  next
    case False
    from Cons.prems have "0 + length rest < 256" "rest = [] \<longrightarrow> (0::nat) = 0"
      "rest \<noteq> [] \<longrightarrow> last rest \<noteq> CHR 0x00"
      by (simp_all split: if_splits)
    note ih = Cons.IH [OF this]
    show ?thesis
    proof (cases "count = 0")
      case True
      from ih [of "new @ [cur]"] obtain z where
        "rle_loop (new @ [cur]) 0 rest = Inr ((new @ [cur]) @ z)" "unrle z = rest"
        by auto
      then show ?thesis
        using False True by (intro exI [of _ "cur # z"]) (simp add: of_char_zero_iff unrle_Cons_nonzero)
    next
      case nz: False
      from Cons.prems have lt: "count < 256" by simp
      from ih [of "new @ [CHR 0x00, char_of count] @ [cur]"] obtain z where
        z: "rle_loop (new @ [CHR 0x00, char_of count] @ [cur]) 0 rest
            = Inr ((new @ [CHR 0x00, char_of count] @ [cur]) @ z)" "unrle z = rest"
        by auto
      have "unrle (CHR 0x00 # char_of count # cur # z) = replicate count (CHR 0x00) @ cur # rest"
        using lt False z(2) by (simp add: unrle_Cons_nonzero)
      then show ?thesis
        using False nz lt z(1)
        by (intro exI [of _ "CHR 0x00 # char_of count # cur # z"]) (simp add: of_char_zero_iff)
    qed
  qed
qed

lemma rle_encode_decode:
  assumes "length s < 256" and "s \<noteq> [] \<longrightarrow> last s \<noteq> CHR 0x00"
  shows "\<exists>z. rle_encode s = Inr z \<and> rle_decode z = s"
  using rle_loop_unrle [of 0 s "[]"] assms by (simp add: rle_encode_def rle_decode_unrle)

lemma b64_alphabet_length: "length b64_alphabet = 64"
  by (simp add: b64_alphabet_def)

lemma b64_alphabet_distinct: "distinct b64_alphabet"
  by (simp add: b64_alphabet_def)

lemma b64_alphabet_no_pad: "CHR ''='' \<notin> set b64_alphabet"
  by (simp add: b64_alphabet_def)

lemma index_of_nth: "distinct xs \<Longrightarrow> n < length xs \<Longrightarrow> index_of (xs ! n) xs = Some n"
proof (induction xs arbitrary: n)
  case Nil
  then show ?case by simp
next
  case (Cons x xs)
  then show ?case by (cases n) auto
qed

lemma index_of_b64_char: "n < 64 \<Longrightarrow> index_of (b64_char n) b64_alphabet = Some n"
  using index_of_nth [OF b64_alphabet_distinct, of n]
  by (simp add: b64_char_def b64_alphabet_length)

lemma b64_char_no_pad: "b64_char n \<noteq> CHR ''=''"
proof -
  have "b64_char n \<in> set b64_alphabet"
    by (simp add: b64_char_def b64_alphabet_length)
  with b64_alphabet_no_pad show ?thesis by metis
qed

lemma sextets_map_b64_char:
  "\<forall>x \<in> set xs. x < 64 \<Longrightarrow> sextets (map b64_char xs) = Some xs"
  by (induction xs) (simp_all add: index_of_b64_char)

lemma urlsafe_b64encode_sextets:
  "\<exists>k. urlsafe_b64encode ns = map b64_char (sextets_of ns) @ replicate k (CHR ''='')"
proof (induction ns rule: sextets_of.induct)
  case 1
  show ?case by simp
next
  case (2 a)
  show ?case by (intro exI [of _ 2]) (simp add: numeral_2_eq_2)
next
  case (3 a b)
  show ?case by (intro exI [of _ 1]) simp
next
  case (4 a b c rest)
  then obtain k where "urlsafe_b64encode rest = map b64_char (sextets_of rest) @ replicate k (CHR ''='')"
    by blast
  then show ?case by (intro exI [of _ k]) simp
qed

lemma rstrip_pad:
  "rstrip (CHR ''='') (map b64_char xs @ replicate k (CHR ''='')) = map b64_char xs"
proof -
  have "dropWhile (\<lambda>x. x = CHR ''='') (rev (map b64_char xs)) = rev (map b64_char xs)"
    by (cases "rev xs") (simp_all add: rev_map b64_char_no_pad)
  moreover have "dropWhile (\<lambda>x. x = CHR ''='') (replicate k (CHR ''='') @ ys)
                   = dropWhile (\<lambda>x. x = CHR ''='') ys" for ys
    by (induction k) simp_all
  ultimately show ?thesis by (simp add: rstrip_def)
qed

lemma sextets_of_bound: "\<forall>x \<in> set ns. x < 256 \<Longrightarrow> \<forall>x \<in> set (sextets_of ns). x < 64"
  by (induction ns rule: sextets_of.induct) auto

lemma div_mod_join: "y < n \<Longrightarrow> (x * n + y) div n = x" "y < n \<Longrightarrow> (x * n + y) mod n = y"
  for x y n :: nat
  by simp_all

lemma sextet_arith:
  fixes a b c :: nat
  assumes "b < 256" "c < 256"
  shows "a div 4 * 4 + (a mod 4 * 16 + b div 16) div 16 = a"
    and "(a mod 4 * 16 + b div 16) mod 16 * 16 + (b mod 16 * 4 + c div 64) div 4 = b"
    and "(b mod 16 * 4 + c div 64) mod 4 * 64 + c mod 64 = c"
proof -
  have b16: "b div 16 < 16" using assms(1) by (simp add: div_less_iff_less_mult)
  have c64: "c div 64 < 4" using assms(2) by (simp add: div_less_iff_less_mult)
  show "a div 4 * 4 + (a mod 4 * 16 + b div 16) div 16 = a"
    by (simp only: div_mod_join(1) [OF b16] div_mult_mod_eq)
  show "(a mod 4 * 16 + b div 16) mod 16 * 16 + (b mod 16 * 4 + c div 64) div 4 = b"
    by (simp only: div_mod_join(2) [OF b16] div_mod_join(1) [OF c64] div_mult_mod_eq)
  show "(b mod 16 * 4 + c div 64) mod 4 * 64 + c mod 64 = c"
    by (simp only: div_mod_join(2) [OF c64] div_mult_mod_eq)
qed

lemma sextet_arith_one: "a div 4 * 4 + a mod 4 * 16 div 16 = a" for a :: nat
  by simp

lemma sextet_arith_two:
  fixes a b :: nat
  assumes "b < 256"
  shows "a div 4 * 4 + (a mod 4 * 16 + b div 16) div 16 = a"
    and "(a mod 4 * 16 + b div 16) mod 16 * 16 + b mod 16 * 4 div 4 = b"
proof -
  have b16: "b div 16 < 16" using assms(1) by (simp add: div_less_iff_less_mult)
  show "a div 4 * 4 + (a mod 4 * 16 + b div 16) div 16 = a"
    by (simp only: div_mod_join(1) [OF b16] div_mult_mod_eq)
  have m: "(a mod 4 * 16 + b div 16) mod 16 = b div 16"
    by (rule div_mod_join(2) [OF b16])
  have d: "b mod 16 * 4 div 4 = b mod 16" by simp
  show "(a mod 4 * 16 + b div 16) mod 16 * 16 + b mod 16 * 4 div 4 = b"
    by (simp only: m d div_mult_mod_eq)
qed


lemma b64_bytes_sextets_of: "\<forall>x \<in> set ns. x < 256 \<Longrightarrow> b64_bytes (sextets_of ns) = Some ns"
proof (induction ns rule: sextets_of.induct)
  case 1
  show ?case by simp
next
  case (2 a)
  show ?case
    by (simp only: sextets_of.simps b64_bytes.simps sextet_arith_one)
next
  case (3 a b)
  then have "b < 256" by simp
  then show ?case
    by (simp only: sextets_of.simps b64_bytes.simps sextet_arith_two)
next
  case (4 a b c rest)
  then have lt: "b < 256" "c < 256" and r: "\<forall>x \<in> set rest. x < 256" by simp_all
  have ih: "b64_bytes (sextets_of rest) = Some rest"
    using r by (rule "4.IH")
  show ?case
    by (simp only: sextets_of.simps append_Cons append_Nil b64_bytes.simps ih option.map
          sextet_arith [OF lt])
qed

lemma base64_encode_decode:
  "\<exists>t. encode_telegram_base64 s = Some t \<and> decode_telegram_base64 t = Some s"
proof -
  let ?ns = "map of_char s :: nat list"
  have bound: "\<forall>x \<in> set ?ns. x < 256" by simp
  obtain k where "urlsafe_b64encode ?ns = map b64_char (sextets_of ?ns) @ replicate k (CHR ''='')"
    using urlsafe_b64encode_sextets by blast
  then have enc: "encode_telegram_base64 s = Some (map b64_char (sextets_of ?ns))"
    by (simp add: encode_telegram_base64_def rstrip_pad)
  have "sextets (map b64_char (sextets_of ?ns)) = Some (sextets_of ?ns)"
    using sextets_of_bound [OF bound] by (rule sextets_map_b64_char)
  moreover have "b64_bytes (sextets_of ?ns) = Some ?ns"
    using bound by (rule b64_bytes_sextets_of)
  ultimately have "decode_telegram_base64 (map b64_char (sextets_of ?ns)) = Some (map char_of ?ns)"
    by (simp add: decode_telegram_base64_def)
  moreover have "map char_of ?ns = s"
    by (simp add: map_idI)
  ultimately show ?thesis using enc by simp
qed

subsection \<open>The file-id packer\<close>

lemma file_type_loop_find:
  "file_type_loop ft attrs
     = (case find is_typed_attribute attrs of None \<Rightarrow> ft | Some a \<Rightarrow> type_code_of a)"
  by (induction attrs) (auto simp: is_typed_attribute_def type_code_of_def split: DocumentAttribute.splits)

lemma file_type_loop_code: "file_type_loop 5 attrs = document_type_code attrs"
  by (simp add: file_type_loop_find document_type_code_def)

lemma document_type_code_range:
  "document_type_code attrs \<in> {3, 4, 5, 8, 9, 10, 13}"
  by (auto simp: document_type_code_def type_code_of_def split: option.splits DocumentAttribute.splits)

lemma length_le_bytes [simp]: "length (le_bytes n x) = n"
  by (simp add: le_bytes_def)

lemma le_bytes_Suc: "le_bytes (Suc n) x = char_of x # le_bytes n (x div 256)"
proof -
  have "x div 256 ^ Suc k = x div 256 div 256 ^ k" for k
    by (simp add: zdiv_zmult2_eq)
  then show ?thesis
    by (simp add: le_bytes_def map_upt_Suc del: upt_Suc power_Suc)
qed

lemma le_value_le_bytes: "le_value (le_bytes n x) = x mod 256 ^ n"
proof (induction n arbitrary: x)
  case 0
  show ?case by (simp add: le_bytes_def le_value_def)
next
  case (Suc n)
  have "le_value (le_bytes (Suc n) x) = x mod 256 + 256 * le_value (le_bytes n (x div 256))"
    by (simp add: le_bytes_Suc le_value_def)
  also have "\<dots> = x mod 256 + 256 * (x div 256 mod 256 ^ n)"
    by (simp add: Suc.IH)
  also have "\<dots> = x mod 256 ^ Suc n"
    by (simp add: zmod_zmult2_eq)
  finally show ?case .
qed


lemma char_of_2: "char_of (2 :: int) = CHR 0x02"
  by code_simp

lemma le_bytes_1_2: "le_bytes (Suc 0) 2 = [CHR 0x02]"
  by (simp add: le_bytes_def char_of_2)

lemma pack_field_fits:
  "pack_field f x = (if fits (8 * fmt_size f) x then Inr (le_bytes (fmt_size f) x) else Inl StructError)"
  by (simp add: pack_field_def fits_def)

lemma fits_small: "- 128 \<le> x \<Longrightarrow> x < 128 \<Longrightarrow> fits 32 x \<and> fits 64 x \<and> fits 8 x"
  by (simp add: fits_def)

lemma fits_type_code: "fits 32 (document_type_code attrs)"
  using document_type_code_range [of attrs] by (auto simp: fits_def)

lemma struct_pack_document:
  "struct_pack [Fmt_i, Fmt_i, Fmt_q, Fmt_q, Fmt_b]
     [file_type_loop 5 (attributes d), d_dc_id d, d_id d, d_access_hash d, 2]
     = (if document_fits d then Inr (document_record d) else Inl StructError)"
  using fits_type_code [of "attributes d"] fits_small [of 2]
  by (simp add: file_type_loop_code pack_field_fits document_fits_def document_record_def
        le_bytes_1_2)

lemma struct_pack_photo:
  "struct_pack [Fmt_i, Fmt_i, Fmt_q, Fmt_q, Fmt_q, Fmt_q, Fmt_i, Fmt_b]
     [2, p_dc_id p, p_id p, p_access_hash p, 0, 0, 0, 2]
     = (if photo_fits p then Inr (photo_record p) else Inl StructError)"
  using fits_small [of 2] fits_small [of 0]
  by (simp add: pack_field_fits photo_fits_def photo_record_def le_bytes_1_2)

lemma length_document_record: "length (document_record d) = 25"
  by (simp add: document_record_def)

lemma length_photo_record: "length (photo_record p) = 45"
  by (simp add: photo_record_def)

lemma last_document_record: "last (document_record d) = CHR 0x02"
  by (simp add: document_record_def)

lemma last_photo_record: "last (photo_record p) = CHR 0x02"
  by (simp add: photo_record_def)

lemma encode_record_decodes:
  assumes "length r < 256" and "r \<noteq> []" and "last r \<noteq> CHR 0x00"
  shows "\<exists>s z. encode_record (Inr r) = Inr (Some s) \<and>
           decode_telegram_base64 s = Some z \<and> rle_decode z = r"
proof -
  obtain z where z: "rle_encode r = Inr z" "rle_decode z = r"
    using rle_encode_decode [of r] assms by auto
  obtain s where s: "encode_telegram_base64 z = Some s" "decode_telegram_base64 s = Some z"
    using base64_encode_decode [of z] by auto
  show ?thesis
    using z s by (simp add: encode_record_def)
qed

lemma document_record_decodes:
  "\<exists>s z. encode_record (Inr (document_record d)) = Inr (Some s) \<and>
         decode_telegram_base64 s = Some z \<and> rle_decode z = document_record d"
proof (rule encode_record_decodes)
  show "length (document_record d) < 256" by (simp add: length_document_record)
  show "document_record d \<noteq> []" by (simp add: document_record_def)
  show "last (document_record d) \<noteq> CHR 0x00" by (simp add: last_document_record)
qed

lemma photo_record_decodes:
  "\<exists>s z. encode_record (Inr (photo_record p)) = Inr (Some s) \<and>
         decode_telegram_base64 s = Some z \<and> rle_decode z = photo_record p"
proof (rule encode_record_decodes)
  show "length (photo_record p) < 256" by (simp add: length_photo_record)
  show "photo_record p \<noteq> []" by (simp add: photo_record_def)
  show "last (photo_record p) \<noteq> CHR 0x00" by (simp add: last_photo_record)
qed

lemma pack_document:
  "pack_bot_file_id (IsDocument d)
     = (if document_fits d then encode_record (Inr (document_record d)) else Inl StructError)"
  by (simp add: pack_bot_file_id_def unwrap_media_def struct_pack_document encode_record_def
        del: struct_pack.simps)

lemma find_plain_size:
  "(find is_plain_size (rev xs) = None) \<longleftrightarrow> \<not> (\<exists>x \<in> set xs. is_plain_size x)"
  by (auto simp: find_None_iff)

lemma pack_photo:
  "pack_bot_file_id (IsPhoto p)
     = (if \<not> (\<exists>x \<in> set (sizes p). is_plain_size x) then Inr None
        else if photo_fits p then encode_record (Inr (photo_record p)) else Inl StructError)"
proof (cases "find is_plain_size (rev (sizes p))")
  case None
  then show ?thesis
    using find_plain_size [of "sizes p"] by (simp add: pack_bot_file_id_def unwrap_media_def)
next
  case (Some sz)
  then have "\<exists>x \<in> set (sizes p). is_plain_size x"
    using find_plain_size [of "sizes p"] by simp
  then show ?thesis
    using Some
    by (simp add: pack_bot_file_id_def unwrap_media_def struct_pack_photo encode_record_def
          del: struct_pack.simps)
qed

lemma pack_unwrap: "pack_bot_file_id f = pack_bot_file_id (unwrap_media f) \<or>
    (\<exists>g. unwrap_media f = MessageMediaDocument g \<or> unwrap_media f = MessageMediaPhoto g)"
  by (cases f; cases "unwrap_media f") (simp_all add: pack_bot_file_id_def unwrap_media_def)

lemma unwrap_holds_document: "holds_document f d \<longleftrightarrow> unwrap_media f = IsDocument d"
  by (cases f) (auto simp: holds_document_def unwrap_media_def)

lemma unwrap_holds_photo: "holds_photo f p \<longleftrightarrow> unwrap_media f = IsPhoto p"
  by (cases f) (auto simp: holds_photo_def unwrap_media_def)

lemma packable_unwrap: "packable f = is_document_or_photo (unwrap_media f)"
  by (cases f) (simp_all add: packable_def unwrap_media_def)

lemma packable_holds:
  "packable f \<longleftrightarrow>
     (\<exists>d. holds_document f d) \<or> (\<exists>p. holds_photo f p \<and> (\<exists>x \<in> set (sizes p). is_plain_size x))"
  unfolding packable_unwrap unwrap_holds_document unwrap_holds_photo
  by (cases "unwrap_media f") simp_all

lemma pack_unwrapped:
  "unwrap_media f = IsDocument d \<Longrightarrow> pack_bot_file_id f = pack_bot_file_id (IsDocument d)"
  "unwrap_media f = IsPhoto p \<Longrightarrow> pack_bot_file_id f = pack_bot_file_id (IsPhoto p)"
  by (simp_all add: pack_bot_file_id_def unwrap_media_def)

lemma pack_not_packable: "\<not> packable f \<Longrightarrow> pack_bot_file_id f = Inr None"
proof (cases "unwrap_media f")
  case (IsPhoto p)
  assume "\<not> packable f"
  then have "\<not> (\<exists>x \<in> set (sizes p). is_plain_size x)"
    using IsPhoto by (simp add: packable_unwrap)
  then show ?thesis
    using pack_unwrapped(2) [OF IsPhoto] by (simp add: pack_photo)
qed (simp_all add: packable_unwrap pack_bot_file_id_def)

lemma pack_holds_document:
  assumes "holds_document f d"
  shows "document_fits d \<Longrightarrow>
           \<exists>s z. pack_bot_file_id f = Inr (Some s) \<and> decode_telegram_base64 s = Some z \<and>
                 rle_decode z = document_record d"
    and "\<not> document_fits d \<Longrightarrow> pack_bot_file_id f = Inl StructError"
proof -
  have eq: "pack_bot_file_id f = pack_bot_file_id (IsDocument d)"
    using assms by (simp add: unwrap_holds_document pack_unwrapped)
  show "\<exists>s z. pack_bot_file_id f = Inr (Some s) \<and> decode_telegram_base64 s = Some z \<and>
                 rle_decode z = document_record d" if "document_fits d"
    using that document_record_decodes [of d] by (simp add: eq pack_document)
  show "pack_bot_file_id f = Inl StructError" if "\<not> document_fits d"
    using that by (simp add: eq pack_document)
qed

lemma pack_holds_photo:
  assumes "holds_photo f p" and "\<exists>x \<in> set (sizes p). is_plain_size x"
  shows "photo_fits p \<Longrightarrow>
           \<exists>s z. pack_bot_file_id f = Inr (Some s) \<and> decode_telegram_base64 s = Some z \<and>
                 rle_decode z = photo_record p"
    and "\<not> photo_fits p \<Longrightarrow> pack_bot_file_id f = Inl StructError"
proof -
  have eq: "pack_bot_file_id f = pack_bot_file_id (IsPhoto p)"
    using assms(1) by (simp add: unwrap_holds_photo pack_unwrapped)
  show "\<exists>s z. pack_bot_file_id f = Inr (Some s) \<and> decode_telegram_base64 s = Some z \<and>
                 rle_decode z = photo_record p" if "photo_fits p"
    using that assms(2) photo_record_decodes [of p] by (simp add: eq pack_photo)
  show "pack_bot_file_id f = Inl StructError" if "\<not> photo_fits p"
    using that assms(2) by (simp add: eq pack_photo)
qed

text \<open>
  C8, amended: \<open>pack_bot_file_id\<close> returns \<open>None\<close> for every input that is not a document
  or a photo (given as it is or in a media container), and for every photo without a plain
  or cached size.  For every other document or photo whose \<open>dc_id\<close> fits a signed 32-bit
  field and whose \<open>id\<close> and \<open>access_hash\<close> fit signed 64-bit fields it returns a string,
  which the decoders of the library turn back into the packed record; when a field does not
  fit, \<open>struct.pack\<close> raises.
\<close>

theorem pack_bot_file_id_applicable:
  "(\<not> packable f \<longrightarrow> pack_bot_file_id f = Inr None) \<and>
   (\<forall>d. holds_document f d \<longrightarrow>
      (document_fits d \<longrightarrow>
         (\<exists>s z. pack_bot_file_id f = Inr (Some s) \<and> decode_telegram_base64 s = Some z \<and>
                rle_decode z = document_record d)) \<and>
      (\<not> document_fits d \<longrightarrow> pack_bot_file_id f = Inl StructError)) \<and>
   (\<forall>p. holds_photo f p \<and> (\<exists>x \<in> set (sizes p). is_plain_size x) \<longrightarrow>
      (photo_fits p \<longrightarrow>
         (\<exists>s z. pack_bot_file_id f = Inr (Some s) \<and> decode_telegram_base64 s = Some z \<and>
                rle_decode z = photo_record p)) \<and>
      (\<not> photo_fits p \<longrightarrow> pack_bot_file_id f = Inl StructError)) \<and>
   (packable f \<longleftrightarrow>
      (\<exists>d. holds_document f d) \<or>
      (\<exists>p. holds_photo f p \<and> (\<exists>x \<in> set (sizes p). is_plain_size x)))"
proof (intro conjI allI impI)
  assume "\<not> packable f"
  then show "pack_bot_file_id f = Inr None" by (rule pack_not_packable)
next
  fix d assume h: "holds_document f d"
  { assume "document_fits d"
    then show "\<exists>s z. pack_bot_file_id f = Inr (Some s) \<and> decode_telegram_base64 s = Some z \<and>
                rle_decode z = document_record d"
      by (rule pack_holds_document(1) [OF h]) }
  { assume "\<not> document_fits d"
    then show "pack_bot_file_id f = Inl StructError"
      by (rule pack_holds_document(2) [OF h]) }
next
  fix p assume "holds_photo f p \<and> (\<exists>x \<in> set (sizes p). is_plain_size x)"
  then have h: "holds_photo f p" "\<exists>x \<in> set (sizes p). is_plain_size x" by simp_all
  { assume "photo_fits p"
    then show "\<exists>s z. pack_bot_file_id f = Inr (Some s) \<and> decode_telegram_base64 s = Some z \<and>
                rle_decode z = photo_record p"
      by (rule pack_holds_photo(1) [OF h]) }
  { assume "\<not> photo_fits p"
    then show "pack_bot_file_id f = Inl StructError"
      by (rule pack_holds_photo(2) [OF h]) }
next
  show "packable f \<longleftrightarrow>
      (\<exists>d. holds_document f d) \<or>
      (\<exists>p. holds_photo f p \<and> (\<exists>x \<in> set (sizes p). is_plain_size x))"
    by (rule packable_holds)
qed

text \<open>The identifiers of the sample document and of the sample photo, computed.\<close>

lemma sample_document_id:
  "pack_bot_file_id (IsDocument sample_document) = Inr (Some ''BAADAgADFBqZvhwAA0-XIcX_____Ag'')"
  by code_simp

lemma sample_photo_id:
  "pack_bot_file_id (MessageMediaPhoto (IsPhoto sample_photo)) = Inr (Some ''AgADBAADBQAIAQAaAg'')"
  by code_simp

theorem pack_bot_file_id_applicable_witness:
  "holds_document (IsDocument sample_document) sample_document \<and> document_fits sample_document \<and>
   pack_bot_file_id (IsDocument sample_document) = Inr (Some ''BAADAgADFBqZvhwAA0-XIcX_____Ag'') \<and>
   (\<exists>z. decode_telegram_base64 ''BAADAgADFBqZvhwAA0-XIcX_____Ag'' = Some z \<and>
        rle_decode z = document_record sample_document) \<and>
   holds_photo (MessageMediaPhoto (IsPhoto sample_photo)) sample_photo \<and> photo_fits sample_photo \<and>
   pack_bot_file_id (MessageMediaPhoto (IsPhoto sample_photo)) = Inr (Some ''AgADBAADBQAIAQAaAg'') \<and>
   (\<exists>z. decode_telegram_base64 ''AgADBAADBQAIAQAaAg'' = Some z \<and>
        rle_decode z = photo_record sample_photo) \<and>
   \<not> packable (IsPhoto (sample_photo\<lparr>sizes := [PhotoStrippedSize]\<rparr>)) \<and>
   pack_bot_file_id (IsPhoto (sample_photo\<lparr>sizes := [PhotoStrippedSize]\<rparr>)) = Inr None \<and>
   \<not> packable PyNone \<and> pack_bot_file_id PyNone = Inr None \<and>
   \<not> packable (MessageMediaDocument DocumentEmpty) \<and>
   pack_bot_file_id (MessageMediaDocument DocumentEmpty) = Inr None \<and>
   \<not> document_fits wide_dc_document \<and>
   pack_bot_file_id (MessageMediaDocument (IsDocument wide_dc_document)) = Inl StructError"
proof -
  have hd: "holds_document (IsDocument sample_document) sample_document"
    and hw: "holds_document (MessageMediaDocument (IsDocument wide_dc_document)) wide_dc_document"
    by (simp_all add: holds_document_def)
  have hp: "holds_photo (MessageMediaPhoto (IsPhoto sample_photo)) sample_photo"
    by (simp add: holds_photo_def)
  have sz: "\<exists>x \<in> set (sizes sample_photo). is_plain_size x"
    by (simp add: sample_photo_def is_plain_size_def)
  have fd: "document_fits sample_document" and fw: "\<not> document_fits wide_dc_document"
    by (simp_all add: document_fits_def fits_def sample_document_def wide_dc_document_def)
  have fp: "photo_fits sample_photo"
    by (simp add: photo_fits_def fits_def sample_photo_def)
  have n: "\<not> packable (IsPhoto (sample_photo\<lparr>sizes := [PhotoStrippedSize]\<rparr>))"
    "\<not> packable PyNone" "\<not> packable (MessageMediaDocument DocumentEmpty)"
    by (simp_all add: packable_def is_plain_size_def)
  have a: "\<exists>z. decode_telegram_base64 ''BAADAgADFBqZvhwAA0-XIcX_____Ag'' = Some z \<and>
        rle_decode z = document_record sample_document"
    using pack_bot_file_id_applicable [of "IsDocument sample_document", THEN conjunct2,
        THEN conjunct1, rule_format, OF hd, THEN conjunct1, rule_format, OF fd]
    by (simp add: sample_document_id)
  have b: "\<exists>z. decode_telegram_base64 ''AgADBAADBQAIAQAaAg'' = Some z \<and>
        rle_decode z = photo_record sample_photo"
    using pack_bot_file_id_applicable [of "MessageMediaPhoto (IsPhoto sample_photo)",
        THEN conjunct2, THEN conjunct2, THEN conjunct1, rule_format, OF conjI [OF hp sz],
        THEN conjunct1, rule_format, OF fp]
    by (simp add: sample_photo_id)
  have c: "pack_bot_file_id (IsPhoto (sample_photo\<lparr>sizes := [PhotoStrippedSize]\<rparr>)) = Inr None"
    "pack_bot_file_id PyNone = Inr None"
    "pack_bot_file_id (MessageMediaDocument DocumentEmpty) = Inr None"
    using n pack_bot_file_id_applicable [of "IsPhoto (sample_photo\<lparr>sizes := [PhotoStrippedSize]\<rparr>)"]
      pack_bot_file_id_applicable [of PyNone]
      pack_bot_file_id_applicable [of "MessageMediaDocument DocumentEmpty"]
    by blast+
  have d: "pack_bot_file_id (MessageMediaDocument (IsDocument wide_dc_document)) = Inl StructError"
    using pack_bot_file_id_applicable [of "MessageMediaDocument (IsDocument wide_dc_document)",
        THEN conjunct2, THEN conjunct1, rule_format, OF hw, THEN conjunct2, rule_format, OF fw] .
  show ?thesis
    using hd hp fd fp fw n a b c d sample_document_id sample_photo_id by (intro conjI) assumption+
qed

text \<open>
  C8 as stated (a string for every document) fails: for a document whose \<open>dc_id\<close> is
  \<open>2 ^ 31\<close> the packer raises \<open>struct.error\<close>.
\<close>

theorem pack_bot_file_id_wide_dc:
  "packable (IsDocument wide_dc_document) \<and>
   pack_bot_file_id (IsDocument wide_dc_document) = Inl StructError"
  by (simp add: packable_def pack_document document_fits_def fits_def wide_dc_document_def)

lemma le_value_take:
  "le_value (take 4 (document_record d)) = document_type_code (attributes d)"
  "le_value (take 4 (drop 4 (document_record d))) = d_dc_id d mod 2 ^ 32"
  "le_value (take 8 (drop 8 (document_record d))) = d_id d mod 2 ^ 64"
  "le_value (take 8 (drop 16 (document_record d))) = d_access_hash d mod 2 ^ 64"
  "drop 24 (document_record d) = [CHR 0x02]"
  using document_type_code_range [of "attributes d"]
  by (auto simp: document_record_def le_value_le_bytes)

text \<open>
  C9, amended: for every document the type code computed by the loop is that of the first
  audio, video, sticker or animated attribute (5 without one).  When \<open>dc_id\<close> fits a signed
  32-bit field and \<open>id\<close> and \<open>access_hash\<close> fit signed 64-bit fields, the identifier
  decodes, through the base64 and run-length decoders of the library, to the 25-byte record:
  the type code and the datacenter on 4 bytes, the file id and the access hash on 8 bytes,
  each little-endian in two's complement, and the byte 2.  When a field does not fit,
  \<open>struct.pack\<close> raises and there is no identifier.
\<close>

theorem pack_bot_file_id_document:
  "file_type_loop 5 (attributes d) = document_type_code (attributes d) \<and>
   (document_fits d \<longrightarrow>
      (\<exists>s z. pack_bot_file_id (IsDocument d) = Inr (Some s) \<and>
             decode_telegram_base64 s = Some z \<and> rle_decode z = document_record d)) \<and>
   (\<not> document_fits d \<longrightarrow> pack_bot_file_id (IsDocument d) = Inl StructError) \<and>
   length (document_record d) = 25 \<and>
   le_value (take 4 (document_record d)) = document_type_code (attributes d) \<and>
   le_value (take 4 (drop 4 (document_record d))) = d_dc_id d mod 2 ^ 32 \<and>
   le_value (take 8 (drop 8 (document_record d))) = d_id d mod 2 ^ 64 \<and>
   le_value (take 8 (drop 16 (document_record d))) = d_access_hash d mod 2 ^ 64 \<and>
   drop 24 (document_record d) = [CHR 0x02]"
proof (intro conjI impI)
  show "file_type_loop 5 (attributes d) = document_type_code (attributes d)"
    by (rule file_type_loop_code)
  show "length (document_record d) = 25"
    by (rule length_document_record)
  show "le_value (take 4 (document_record d)) = document_type_code (attributes d)"
    "le_value (take 4 (drop 4 (document_record d))) = d_dc_id d mod 2 ^ 32"
    "le_value (take 8 (drop 8 (document_record d))) = d_id d mod 2 ^ 64"
    "le_value (take 8 (drop 16 (document_record d))) = d_access_hash d mod 2 ^ 64"
    "drop 24 (document_record d) = [CHR 0x02]"
    by (rule le_value_take)+
next
  assume "document_fits d"
  then show "\<exists>s z. pack_bot_file_id (IsDocument d) = Inr (Some s) \<and>
             decode_telegram_base64 s = Some z \<and> rle_decode z = document_record d"
    using document_record_decodes [of d] by (simp add: pack_document)
next
  assume "\<not> document_fits d"
  then show "pack_bot_file_id (IsDocument d) = Inl StructError"
    by (simp add: pack_document)
qed

lemma sticker_document_id:
  "pack_bot_file_id (IsDocument (wide_id_document\<lparr>d_id := - 2\<rparr>))
     = Inr (Some ''CAADAgAD_v________8BAAcC'')"
  by code_simp

theorem pack_bot_file_id_document_witness:
  "document_fits (wide_id_document\<lparr>d_id := - 2\<rparr>) \<and>
   document_type_code (attributes (wide_id_document\<lparr>d_id := - 2\<rparr>)) = 8 \<and>
   pack_bot_file_id (IsDocument (wide_id_document\<lparr>d_id := - 2\<rparr>))
     = Inr (Some ''CAADAgAD_v________8BAAcC'') \<and>
   (\<exists>z. decode_telegram_base64 ''CAADAgAD_v________8BAAcC'' = Some z \<and>
        rle_decode z = document_record (wide_id_document\<lparr>d_id := - 2\<rparr>)) \<and>
   le_value (take 8 (drop 8 (document_record (wide_id_document\<lparr>d_id := - 2\<rparr>))))
     = 18446744073709551614 \<and>
   \<not> document_fits wide_id_document \<and>
   pack_bot_file_id (IsDocument wide_id_document) = Inl StructError"
proof -
  let ?d = "wide_id_document\<lparr>d_id := - 2\<rparr>"
  have f: "document_fits ?d" and nf: "\<not> document_fits wide_id_document"
    by (simp_all add: document_fits_def fits_def wide_id_document_def)
  have c: "document_type_code (attributes ?d) = 8"
    by (simp add: wide_id_document_def document_type_code_def is_typed_attribute_def
          type_code_of_def)
  note t = pack_bot_file_id_document [of ?d]
  note t' = pack_bot_file_id_document [of wide_id_document]
  have a: "\<exists>z. decode_telegram_base64 ''CAADAgAD_v________8BAAcC'' = Some z \<and>
        rle_decode z = document_record ?d"
    using t [THEN conjunct2, THEN conjunct1, rule_format, OF f] by (simp add: sticker_document_id)
  have v: "le_value (take 8 (drop 8 (document_record ?d))) = 18446744073709551614"
    using t by simp
  have e: "pack_bot_file_id (IsDocument wide_id_document) = Inl StructError"
    using t' [THEN conjunct2, THEN conjunct2, THEN conjunct1, rule_format, OF nf] .
  show ?thesis
    using f nf c a v e sticker_document_id by (intro conjI) assumption+
qed

text \<open>
  C9 as stated (an output for every document) fails: for a document whose \<open>id\<close> is
  \<open>2 ^ 63\<close> the packer raises \<open>struct.error\<close>.
\<close>

theorem pack_bot_file_id_wide_id:
  "pack_bot_file_id (IsDocument wide_id_document) = Inl StructError"
  by (simp add: pack_document document_fits_def fits_def wide_id_document_def)

end
